theory Spec2Isabelle
  imports Main
begin

section \<open>Data model\<close>

text \<open>
  The pricing agent of \<^verbatim>\<open>ratio_aws/agents/pricing/runtime/run.py\<close>.
  Python strings are modelled as \<^typ>\<open>string\<close> (ASCII text), JSON values as the
  datatype below, and a Python \<^verbatim>\<open>dict\<close> with string keys as an association list in
  insertion order with distinct keys.
\<close>

datatype json =
    JNull
  | JBool bool
  | JNum int
  | JStr string
  | JArr "json list"
  | JObj "(string \<times> json) list"

type_synonym 'v dict = "(string \<times> 'v) list"

text \<open>
  \<^verbatim>\<open>d[k] = v\<close> on a Python dict: an existing key keeps its position and takes the new
  value, a new key goes to the end.
\<close>

fun dict_set :: "string \<Rightarrow> 'v \<Rightarrow> 'v dict \<Rightarrow> 'v dict" where
  "dict_set k v [] = [(k, v)]"
| "dict_set k v ((k', v') # d) =
     (if k' = k then (k, v) # d else (k', v') # dict_set k v d)"

definition dict_get :: "'v dict \<Rightarrow> string \<Rightarrow> 'v option" where
  "dict_get d k = map_of d k"

definition dict_keys :: "'v dict \<Rightarrow> string list" where
  "dict_keys d = map fst d"

datatype error =
    PricingError string
  | IndexError
  | TypeError
  | UpstreamError string
  | StorageError string

section \<open>Region table\<close>

definition REGION_MAPPING :: "string dict" where
  "REGION_MAPPING =
    [(''us-east-1'', ''US East (N. Virginia)''),
     (''us-east-2'', ''US East (Ohio)''),
     (''us-west-1'', ''US West (N. California)''),
     (''us-west-2'', ''US West (Oregon)''),
     (''eu-west-1'', ''Europe (Ireland)''),
     (''eu-west-2'', ''Europe (London)''),
     (''eu-west-3'', ''Europe (Paris)''),
     (''eu-central-1'', ''Europe (Frankfurt)''),
     (''eu-north-1'', ''Europe (Stockholm)''),
     (''ap-southeast-1'', ''Asia Pacific (Singapore)''),
     (''ap-southeast-2'', ''Asia Pacific (Sydney)''),
     (''ap-northeast-1'', ''Asia Pacific (Tokyo)''),
     (''ap-northeast-2'', ''Asia Pacific (Seoul)''),
     (''ap-south-1'', ''Asia Pacific (Mumbai)''),
     (''ca-central-1'', ''Canada (Central)''),
     (''sa-east-1'', ''South America (Sao Paulo)'')]"

section \<open>Filter normalizer\<close>

text \<open>
  \<^verbatim>\<open>str.split(sep)\<close> with a one-character separator: the result is never empty, and
  adjacent, leading and trailing separators give empty segments.
\<close>

fun str_split :: "char \<Rightarrow> string \<Rightarrow> string list" where
  "str_split c [] = [[]]"
| "str_split c (x # xs) =
     (if x = c then [] # str_split c xs
      else (case str_split c xs of
              [] \<Rightarrow> [[x]]
            | w # ws \<Rightarrow> (x # w) # ws))"

text \<open>\<^verbatim>\<open>sep.join(words)\<close>, used to say what the segments of a key are.\<close>

fun str_join :: "char \<Rightarrow> string list \<Rightarrow> string" where
  "str_join c [] = []"
| "str_join c [w] = w"
| "str_join c (w # w' # ws) = w @ c # str_join c (w' # ws)"

definition is_lower :: "char \<Rightarrow> bool" where
  "is_lower c = ((97 :: nat) \<le> of_char c \<and> (of_char c :: nat) \<le> 122)"

definition is_upper :: "char \<Rightarrow> bool" where
  "is_upper c = ((65 :: nat) \<le> of_char c \<and> (of_char c :: nat) \<le> 90)"

definition to_upper :: "char \<Rightarrow> char" where
  "to_upper c = (if is_lower c then char_of ((of_char c :: nat) - 32) else c)"

definition to_lower :: "char \<Rightarrow> char" where
  "to_lower c = (if is_upper c then char_of ((of_char c :: nat) + 32) else c)"

text \<open>
  \<^verbatim>\<open>str.capitalize()\<close>: the first character in upper case and every other character
  in lower case.
\<close>

fun capitalize :: "string \<Rightarrow> string" where
  "capitalize [] = []"
| "capitalize (c # cs) = to_upper c # map to_lower cs"

definition snake_to_camel :: "string \<Rightarrow> string" where
  "snake_to_camel snake_str =
     (if CHR ''_'' \<notin> set snake_str then snake_str
      else (let components = str_split (CHR ''_'') snake_str
            in hd components @ concat (map capitalize (tl components))))"

text \<open>
  The loop of \<^verbatim>\<open>normalize_filters_for_service\<close>, with the dict \<^verbatim>\<open>normalized\<close> as
  accumulator.
\<close>

fun normalize_loop :: "'v dict \<Rightarrow> 'v dict \<Rightarrow> 'v dict" where
  "normalize_loop normalized [] = normalized"
| "normalize_loop normalized ((key, val) # items) =
     normalize_loop (dict_set (snake_to_camel key) val normalized) items"

text \<open>An absent (\<^verbatim>\<open>None\<close>) and an empty mapping are both falsy.\<close>

definition normalize_filters_for_service :: "'v dict option \<Rightarrow> 'v dict" where
  "normalize_filters_for_service filters =
     (case filters of
        None \<Rightarrow> []
      | Some [] \<Rightarrow> []
      | Some fs \<Rightarrow> normalize_loop [] fs)"

section \<open>Requests, collaborators and observable effects\<close>

text \<open>
  The arguments of one invocation (\<^verbatim>\<open>system.arguments\<close>). An optional argument that
  the event leaves out is \<^term>\<open>None\<close>; the handler then takes its default.
\<close>

record request =
  arg_service_code :: string
  arg_regions :: "string list option"
  arg_filters :: "json dict option"
  arg_max_records :: "int option"
  arg_result_file_path :: "string option"

text \<open>\<^verbatim>\<open>system.arguments.get(key, default_return=d)\<close> on a field of the request.\<close>

definition arguments_get :: "'a option \<Rightarrow> 'a \<Rightarrow> 'a" where
  "arguments_get field default_return =
     (case field of None \<Rightarrow> default_return | Some v \<Rightarrow> v)"

text \<open>One entry of the \<^verbatim>\<open>Filters\<close> list and one \<^verbatim>\<open>paginator.paginate\<close> call.\<close>

record api_filter =
  flt_Type :: string
  flt_Field :: string
  flt_Value :: json

record query =
  q_ServiceCode :: string
  q_Filters :: "api_filter list"
  q_MaxResults :: int

text \<open>
  The dict \<^verbatim>\<open>detailed_results\<close> that is serialised into the file, the metadata of
  the \<^verbatim>\<open>put_file\<close> call, the call itself and the response body.
\<close>

record envelope =
  env_service_code :: string
  env_regions_queried :: "string list"
  env_filters_applied :: "json dict"
  env_record_count :: nat
  env_pricing_records :: "json list"

record file_metadata =
  md_service_code :: string
  md_regions :: "string list"
  md_record_count :: nat

record put_file_call =
  pf_file_path :: string
  pf_file_type :: string
  pf_data :: envelope
  pf_metadata :: file_metadata

record response =
  resp_pricing_records :: "json list"
  resp_result_file_path :: string
  resp_service_code :: string
  resp_regions_queried :: "string list"
  resp_record_count :: nat
  resp_filters_applied :: "json dict"

text \<open>
  The external collaborators of one invocation. \<^verbatim>\<open>get_products\<close> answers a query
  with the pages its iterator yields (each page is its \<^verbatim>\<open>PriceList\<close>) and, optionally,
  the upstream error the iterator raises after them. \<^verbatim>\<open>json_loads\<close> is the JSON
  parser (\<^term>\<open>None\<close> is \<^verbatim>\<open>JSONDecodeError\<close>), \<^verbatim>\<open>uuid4\<close> the token that
  \<^verbatim>\<open>uuid.uuid4()\<close> draws, and \<^verbatim>\<open>put_file\<close> the file store, which raises when it
  answers \<^term>\<open>Some msg\<close>.
\<close>

record collab =
  get_products :: "query \<Rightarrow> string list list \<times> string option"
  json_loads :: "string \<Rightarrow> json option"
  uuid4 :: string
  working_directory :: string
  put_file :: "put_file_call \<Rightarrow> string option"

text \<open>What an invocation does to the outside, in the order it does it.\<close>

record world =
  queries :: "query list"
  files :: "put_file_call list"
  warnings :: "string list"

section \<open>The handler\<close>

text \<open>Lines 139 to 146: the display names of the regions, or the first unknown code.\<close>

fun resolve_regions :: "string list \<Rightarrow> string list \<Rightarrow> error + string list" where
  "resolve_regions region_display_names [] = Inr region_display_names"
| "resolve_regions region_display_names (region # regions) =
     (case dict_get REGION_MAPPING region of
        Some name \<Rightarrow> resolve_regions (region_display_names @ [name]) regions
      | None \<Rightarrow> Inl (PricingError (''Unknown region: '' @ region)))"

text \<open>
  Line 157: \<^verbatim>\<open>names if len(names) > 1 else [names[0]]\<close>; the index raises on an
  empty list.
\<close>

definition regions_to_query :: "string list \<Rightarrow> error + string list" where
  "regions_to_query region_display_names =
     (if length region_display_names > 1 then Inr region_display_names
      else (case region_display_names of
              [] \<Rightarrow> Inl IndexError
            | name # _ \<Rightarrow> Inr [name]))"

definition build_api_filters :: "json dict \<Rightarrow> api_filter list" where
  "build_api_filters query_filters =
     map (\<lambda>(key, val). \<lparr>flt_Type = ''TERM_MATCH'', flt_Field = key, flt_Value = val\<rparr>)
       query_filters"

text \<open>
  \<^verbatim>\<open>price_data["queryRegion"] = region_name\<close>: item assignment with a string key is a
  \<^verbatim>\<open>TypeError\<close> on every JSON value but an object.
\<close>

definition set_item :: "json \<Rightarrow> string \<Rightarrow> json \<Rightarrow> error + json" where
  "set_item d k v =
     (case d of
        JObj kvs \<Rightarrow> Inr (JObj (dict_set k v kvs))
      | _ \<Rightarrow> Inl TypeError)"

text \<open>
  Lines 186 to 199, the loop over one page: a document that does not parse is logged and
  skipped, a parsed one is tagged and appended to \<^verbatim>\<open>region_records\<close>.
\<close>

fun parse_price_list ::
  "collab \<Rightarrow> string \<Rightarrow> string list \<Rightarrow> world \<Rightarrow> json list \<Rightarrow> world \<times> (error + json list)"
where
  "parse_price_list c region_name [] w region_records = (w, Inr region_records)"
| "parse_price_list c region_name (price_list_str # rest) w region_records =
     (case json_loads c price_list_str of
        None \<Rightarrow>
          parse_price_list c region_name rest
            (w\<lparr>warnings := warnings w @ [price_list_str]\<rparr>) region_records
      | Some price_data \<Rightarrow>
          (case set_item price_data ''queryRegion'' (JStr region_name) of
             Inl e \<Rightarrow> (w, Inl e)
           | Inr tagged \<Rightarrow>
               parse_price_list c region_name rest w (region_records @ [tagged])))"

text \<open>Line 185, the loop over the pages of one region.\<close>

fun collect_pages ::
  "collab \<Rightarrow> string \<Rightarrow> string list list \<Rightarrow> world \<Rightarrow> json list \<Rightarrow> world \<times> (error + json list)"
where
  "collect_pages c region_name [] w region_records = (w, Inr region_records)"
| "collect_pages c region_name (page # pages) w region_records =
     (case parse_price_list c region_name page w region_records of
        (w', Inl e) \<Rightarrow> (w', Inl e)
      | (w', Inr region_records') \<Rightarrow> collect_pages c region_name pages w' region_records')"

definition region_query :: "string \<Rightarrow> json dict \<Rightarrow> int \<Rightarrow> string \<Rightarrow> query" where
  "region_query service_code final_filters max_records region_name =
     (let query_filters = dict_set ''location'' (JStr region_name) final_filters
      in \<lparr>q_ServiceCode = service_code,
          q_Filters = build_api_filters query_filters,
          q_MaxResults = max_records\<rparr>)"

text \<open>Lines 160 to 201, one pass of the loop over the regions.\<close>

definition query_region ::
  "collab \<Rightarrow> string \<Rightarrow> json dict \<Rightarrow> int \<Rightarrow> string \<Rightarrow> world \<Rightarrow> json list
     \<Rightarrow> world \<times> (error + json list)"
where
  "query_region c service_code final_filters max_records region_name w all_pricing_records =
     (let q = region_query service_code final_filters max_records region_name;
          w1 = w\<lparr>queries := queries w @ [q]\<rparr>
      in case get_products c q of
           (pages, failure) \<Rightarrow>
             (case collect_pages c region_name pages w1 [] of
                (w2, Inl e) \<Rightarrow> (w2, Inl e)
              | (w2, Inr region_records) \<Rightarrow>
                  (case failure of
                     Some msg \<Rightarrow> (w2, Inl (UpstreamError msg))
                   | None \<Rightarrow> (w2, Inr (all_pricing_records @ region_records)))))"

fun region_loop ::
  "collab \<Rightarrow> string \<Rightarrow> json dict \<Rightarrow> int \<Rightarrow> string list \<Rightarrow> world \<Rightarrow> json list
     \<Rightarrow> world \<times> (error + json list)"
where
  "region_loop c service_code final_filters max_records [] w all_pricing_records =
     (w, Inr all_pricing_records)"
| "region_loop c service_code final_filters max_records (region_name # rest) w
     all_pricing_records =
     (case query_region c service_code final_filters max_records region_name w
             all_pricing_records of
        (w', Inl e) \<Rightarrow> (w', Inl e)
      | (w', Inr all') \<Rightarrow> region_loop c service_code final_filters max_records rest w' all')"

text \<open>\<^verbatim>\<open>os.path.join\<close> of two components on a POSIX system.\<close>

definition os_path_join :: "string \<Rightarrow> string \<Rightarrow> string" where
  "os_path_join a b =
     (if (b \<noteq> [] \<and> hd b = CHR ''/'') \<or> a = [] then b
      else if last a = CHR ''/'' then a @ b
      else a @ ''/'' @ b)"

text \<open>Lines 206 to 210: a missing or empty path is replaced by a generated one.\<close>

definition choose_result_path :: "collab \<Rightarrow> string \<Rightarrow> string option \<Rightarrow> string" where
  "choose_result_path c service_code result_file_path =
     (let generated = os_path_join (working_directory c)
            (''aws_pricing_'' @ service_code @ ''_'' @ uuid4 c @ ''.json'')
      in case result_file_path of
           None \<Rightarrow> generated
         | Some p \<Rightarrow> if p = [] then generated else p)"

text \<open>Lines 213 to 246: the file, then the response with at most ten records.\<close>

definition write_results ::
  "collab \<Rightarrow> world \<Rightarrow> string \<Rightarrow> string list \<Rightarrow> json dict \<Rightarrow> string option \<Rightarrow> json list
     \<Rightarrow> world \<times> (error + response)"
where
  "write_results c w service_code regions final_filters result_file_path all_pricing_records =
     (let path = choose_result_path c service_code result_file_path;
          detailed_results =
            \<lparr>env_service_code = service_code,
             env_regions_queried = regions,
             env_filters_applied = final_filters,
             env_record_count = length all_pricing_records,
             env_pricing_records = all_pricing_records\<rparr>;
          call =
            \<lparr>pf_file_path = path,
             pf_file_type = ''ratio::file'',
             pf_data = detailed_results,
             pf_metadata =
               \<lparr>md_service_code = service_code,
                md_regions = regions,
                md_record_count = length all_pricing_records\<rparr>\<rparr>;
          w' = w\<lparr>files := files w @ [call]\<rparr>;
          summary_records =
            (if length all_pricing_records > 10 then take 10 all_pricing_records
             else all_pricing_records)
      in case put_file c call of
           Some msg \<Rightarrow> (w', Inl (StorageError msg))
         | None \<Rightarrow>
             (w', Inr \<lparr>resp_pricing_records = summary_records,
                       resp_result_file_path = path,
                       resp_service_code = service_code,
                       resp_regions_queried = regions,
                       resp_record_count = length all_pricing_records,
                       resp_filters_applied = final_filters\<rparr>))"

text \<open>Line 150: the location is merged into \<^verbatim>\<open>final_filters\<close> for exactly one region.\<close>

definition add_region_filter :: "string list \<Rightarrow> json dict \<Rightarrow> json dict" where
  "add_region_filter region_display_names final_filters =
     (case region_display_names of
        [name] \<Rightarrow> dict_set ''location'' (JStr name) final_filters
      | _ \<Rightarrow> final_filters)"

definition handler :: "collab \<Rightarrow> world \<Rightarrow> request \<Rightarrow> world \<times> (error + response)" where
  "handler c w args =
     (let service_code = arg_service_code args;
          regions = arguments_get (arg_regions args) [''us-east-1''];
          user_filters = arguments_get (arg_filters args) [];
          max_records = arguments_get (arg_max_records args) 50;
          result_file_path = arg_result_file_path args;
          normalized = normalize_filters_for_service (Some user_filters)
      in case resolve_regions [] regions of
           Inl e \<Rightarrow> (w, Inl e)
         | Inr region_display_names \<Rightarrow>
             (let final_filters = add_region_filter region_display_names normalized
              in case regions_to_query region_display_names of
                   Inl e \<Rightarrow> (w, Inl e)
                 | Inr names \<Rightarrow>
                     (case region_loop c service_code final_filters max_records names w [] of
                        (w', Inl e) \<Rightarrow> (w', Inl e)
                      | (w', Inr all_pricing_records) \<Rightarrow>
                          write_results c w' service_code regions final_filters
                            result_file_path all_pricing_records)))"

section \<open>Vocabulary of the properties\<close>

text \<open>
  A raw \<^verbatim>\<open>PriceList\<close> entry is malformed when the parser rejects it, and a
  document when it parses to a JSON object, which is what the Price List API returns.
\<close>

definition malformed :: "collab \<Rightarrow> string \<Rightarrow> bool" where
  "malformed c s = (json_loads c s = None)"

definition is_document :: "collab \<Rightarrow> string \<Rightarrow> bool" where
  "is_document c s = (case json_loads c s of Some (JObj kvs) \<Rightarrow> True | _ \<Rightarrow> False)"

text \<open>The documents among the raw entries, in order, each with its region written in.\<close>

definition tag_documents :: "collab \<Rightarrow> string \<Rightarrow> string list \<Rightarrow> json list" where
  "tag_documents c region_name docs =
     concat (map (\<lambda>s. case json_loads c s of
                          Some (JObj kvs) \<Rightarrow>
                            [JObj (dict_set ''queryRegion'' (JStr region_name) kvs)]
                        | _ \<Rightarrow> []) docs)"

text \<open>
  What a request asks of the catalog, given the display names of its regions: the filters
  after normalisation and line 150, the query of one region, the raw entries the catalog
  answers it with, and the records of all regions.
\<close>

definition req_final_filters :: "request \<Rightarrow> string list \<Rightarrow> json dict" where
  "req_final_filters args names =
     add_region_filter names
       (normalize_filters_for_service (Some (arguments_get (arg_filters args) [])))"

definition req_query :: "request \<Rightarrow> string list \<Rightarrow> string \<Rightarrow> query" where
  "req_query args names region_name =
     region_query (arg_service_code args) (req_final_filters args names)
       (arguments_get (arg_max_records args) 50) region_name"

definition req_docs :: "collab \<Rightarrow> request \<Rightarrow> string list \<Rightarrow> string \<Rightarrow> string list" where
  "req_docs c args names region_name =
     concat (fst (get_products c (req_query args names region_name)))"

definition req_records :: "collab \<Rightarrow> request \<Rightarrow> string list \<Rightarrow> json list" where
  "req_records c args names =
     concat (map (\<lambda>n. tag_documents c n (req_docs c args names n)) names)"

definition req_regions :: "request \<Rightarrow> string list" where
  "req_regions args = arguments_get (arg_regions args) [''us-east-1'']"

definition req_warnings :: "collab \<Rightarrow> request \<Rightarrow> string list \<Rightarrow> string list" where
  "req_warnings c args names =
     concat (map (\<lambda>n. filter (malformed c) (req_docs c args names n)) names)"

text \<open>
  The catalog answers every query of the request without an upstream error, and every raw
  entry it returns is malformed or a document.
\<close>

definition answers_ok :: "collab \<Rightarrow> request \<Rightarrow> string list \<Rightarrow> bool" where
  "answers_ok c args names =
     (\<forall>n \<in> set names.
        snd (get_products c (req_query args names n)) = None \<and>
        (\<forall>s \<in> set (req_docs c args names n). malformed c s \<or> is_document c s))"

text \<open>The value of the \<^verbatim>\<open>location\<close> entry of a query's filter list, if it has one.\<close>

definition query_location :: "query \<Rightarrow> json option" where
  "query_location q =
     map_of (map (\<lambda>f. (flt_Field f, flt_Value f)) (q_Filters q)) ''location''"

section \<open>Example inputs\<close>

text \<open>
  A parser that knows four raw entries, a catalog that answers every query with two pages
  of two entries, a file store that accepts every write, and a request for two regions
  with every optional argument left out.
\<close>

definition example_loads :: "string \<Rightarrow> json option" where
  "example_loads s =
     (if s = ''{}'' then Some (JObj [])
      else if s = ''{\"sku\": \"A1\"}'' then Some (JObj [(''sku'', JStr ''A1'')])
      else if s = ''[]'' then Some (JArr [])
      else None)"

definition example_collab :: collab where
  "example_collab =
     \<lparr>get_products =
        (\<lambda>q. ([[''{\"sku\": \"A1\"}'', ''not json''], [''{}'', ''{\"sku\": \"A1\"}'']], None)),
      json_loads = example_loads,
      uuid4 = ''3f2504e0-4f89-41d3-9a0c-0305e82c3301'',
      working_directory = ''/work'',
      put_file = (\<lambda>call. None)\<rparr>"

definition example_world :: world where
  "example_world = \<lparr>queries = [], files = [], warnings = []\<rparr>"

definition example_request :: request where
  "example_request =
     \<lparr>arg_service_code = ''AmazonEC2'',
      arg_regions = Some [''us-east-1'', ''eu-west-1''],
      arg_filters = None,
      arg_max_records = None,
      arg_result_file_path = None\<rparr>"

section \<open>Properties of dicts and of the string functions\<close>

lemma map_of_dict_set: "map_of (dict_set k v d) = (map_of d)(k \<mapsto> v)"
  by (induction d) (auto simp: fun_eq_iff)

lemma keys_dict_set: "fst ` set (dict_set k v d) = insert k (fst ` set d)"
proof -
  have "fst ` set (dict_set k v d) = dom (map_of (dict_set k v d))"
    by (simp add: dom_map_of_conv_image_fst)
  also have "\<dots> = insert k (dom (map_of d))"
    by (simp add: map_of_dict_set)
  finally show ?thesis by (simp add: dom_map_of_conv_image_fst)
qed

lemma distinct_dict_set: "distinct (map fst d) \<Longrightarrow> distinct (map fst (dict_set k v d))"
  by (induction d) (auto simp: keys_dict_set)

lemma dict_set_new: "k \<notin> fst ` set d \<Longrightarrow> dict_set k v d = d @ [(k, v)]"
  by (induction d) auto

lemma dict_set_twice: "dict_set k v (dict_set k v' d) = dict_set k v d"
  by (induction d) auto

lemma str_split_nonempty: "str_split c xs \<noteq> []"
  by (induction xs) (auto split: list.splits)

lemma str_split_no_sep: "s \<in> set (str_split c xs) \<Longrightarrow> c \<notin> set s"
proof (induction xs arbitrary: s)
  case Nil
  then show ?case by simp
next
  case (Cons x xs)
  show ?case
  proof (cases "x = c")
    case True
    with Cons show ?thesis by auto
  next
    case False
    obtain w ws where ws: "str_split c xs = w # ws"
      using str_split_nonempty [of c xs] by (cases "str_split c xs") auto
    with False Cons.prems have "s = x # w \<or> s \<in> set ws" by simp
    then show ?thesis
    proof
      assume "s = x # w"
      moreover have "c \<notin> set w" using Cons.IH [of w] ws by simp
      ultimately show ?thesis using False by auto
    next
      assume "s \<in> set ws"
      then show ?thesis using Cons.IH [of s] ws by simp
    qed
  qed
qed

lemma str_join_split: "str_join c (str_split c xs) = xs"
proof (induction xs)
  case Nil
  then show ?case by simp
next
  case (Cons x xs)
  obtain w ws where ws: "str_split c xs = w # ws"
    using str_split_nonempty [of c xs] by (cases "str_split c xs") auto
  show ?case
  proof (cases "x = c")
    case True
    with Cons ws show ?thesis by simp
  next
    case False
    with Cons ws show ?thesis by (cases ws) auto
  qed
qed

lemma str_split_no_sep_id: "c \<notin> set xs \<Longrightarrow> str_split c xs = [xs]"
  by (induction xs) auto

lemma to_upper_not_underscore: "x \<noteq> CHR ''_'' \<Longrightarrow> to_upper x \<noteq> CHR ''_''"
proof
  assume ne: "x \<noteq> CHR ''_''" and eq: "to_upper x = CHR ''_''"
  then have low: "is_lower x" and "char_of ((of_char x :: nat) - 32) = CHR ''_''"
    by (auto simp: to_upper_def split: if_splits)
  then have "of_char (char_of ((of_char x :: nat) - 32) :: char) = (of_char (CHR ''_'') :: nat)"
    by simp
  then have m: "((of_char x :: nat) - 32) mod 256 = 95" by simp
  from low have b: "97 \<le> (of_char x :: nat)" "(of_char x :: nat) \<le> 122"
    by (simp_all add: is_lower_def)
  then have "((of_char x :: nat) - 32) mod 256 = of_char x - 32" by simp
  with m b show False by linarith
qed

lemma to_lower_not_underscore: "x \<noteq> CHR ''_'' \<Longrightarrow> to_lower x \<noteq> CHR ''_''"
proof
  assume ne: "x \<noteq> CHR ''_''" and eq: "to_lower x = CHR ''_''"
  then have up: "is_upper x" and "char_of ((of_char x :: nat) + 32) = CHR ''_''"
    by (auto simp: to_lower_def split: if_splits)
  then have "of_char (char_of ((of_char x :: nat) + 32) :: char) = (of_char (CHR ''_'') :: nat)"
    by simp
  then have m: "((of_char x :: nat) + 32) mod 256 = 95" by simp
  from up have b: "65 \<le> (of_char x :: nat)" "(of_char x :: nat) \<le> 90"
    by (simp_all add: is_upper_def)
  then have "((of_char x :: nat) + 32) mod 256 = of_char x + 32" by simp
  with m b show False by linarith
qed

lemma capitalize_no_underscore:
  assumes "CHR ''_'' \<notin> set s"
  shows "CHR ''_'' \<notin> set (capitalize s)"
proof (cases s)
  case Nil
  then show ?thesis by simp
next
  case (Cons x xs)
  with assms have x: "x \<noteq> CHR ''_''" and xs: "\<And>y. y \<in> set xs \<Longrightarrow> y \<noteq> CHR ''_''"
    by auto
  have "to_upper x \<noteq> CHR ''_''" using x by (rule to_upper_not_underscore)
  moreover have "\<And>y. y \<in> set xs \<Longrightarrow> to_lower y \<noteq> CHR ''_''"
    using xs by (rule to_lower_not_underscore)
  ultimately show ?thesis using Cons by fastforce
qed

lemma snake_to_camel_no_underscore: "CHR ''_'' \<notin> set (snake_to_camel k)"
proof (cases "CHR ''_'' \<in> set k")
  case False
  then show ?thesis by (simp add: snake_to_camel_def)
next
  case True
  obtain w ws where ws: "str_split (CHR ''_'') k = w # ws"
    using str_split_nonempty [of "CHR ''_''" k] by (cases "str_split (CHR ''_'') k") auto
  have all: "\<And>s. s \<in> set (w # ws) \<Longrightarrow> CHR ''_'' \<notin> set s"
    using str_split_no_sep [of _ "CHR ''_''" k] ws by simp
  have "CHR ''_'' \<notin> set w" using all by simp
  moreover have "\<And>s. s \<in> set ws \<Longrightarrow> CHR ''_'' \<notin> set (capitalize s)"
    using all capitalize_no_underscore by simp
  ultimately show ?thesis using True ws by (auto simp: snake_to_camel_def)
qed

lemma snake_to_camel_id: "CHR ''_'' \<notin> set k \<Longrightarrow> snake_to_camel k = k"
  by (simp add: snake_to_camel_def)

section \<open>Properties of the filter normalizer\<close>

lemma map_of_normalize_loop:
  "map_of (normalize_loop acc fs) =
     map_of acc ++ map_of (rev (map (\<lambda>(k, v). (snake_to_camel k, v)) fs))"
proof (induction fs arbitrary: acc)
  case Nil
  then show ?case by simp
next
  case (Cons e fs)
  obtain k v where e: "e = (k, v)" by (cases e)
  let ?rest = "map_of (rev (map (\<lambda>(k, v). (snake_to_camel k, v)) fs))"
  have "map_of (normalize_loop acc (e # fs)) =
          map_of (normalize_loop (dict_set (snake_to_camel k) v acc) fs)"
    using e by simp
  also have "\<dots> = map_of (dict_set (snake_to_camel k) v acc) ++ ?rest"
    by (rule Cons.IH)
  also have "\<dots> = (map_of acc)(snake_to_camel k \<mapsto> v) ++ ?rest"
    by (simp only: map_of_dict_set)
  also have "\<dots> = map_of acc
      ++ map_of (rev (map (\<lambda>(k, v). (snake_to_camel k, v)) (e # fs)))"
  proof (rule ext)
    fix x
    show "((map_of acc)(snake_to_camel k \<mapsto> v) ++ ?rest) x =
      (map_of acc ++ map_of (rev (map (\<lambda>(k, v). (snake_to_camel k, v)) (e # fs)))) x"
      using e by (simp add: map_add_def split: option.splits)
  qed
  finally show ?case .
qed

lemma keys_normalize_loop:
  "fst ` set (normalize_loop acc fs) = fst ` set acc \<union> snake_to_camel ` fst ` set fs"
proof (induction fs arbitrary: acc)
  case Nil
  then show ?case by simp
next
  case (Cons e fs)
  obtain k v where e: "e = (k, v)" by (cases e)
  show ?case using Cons.IH [of "dict_set (snake_to_camel k) v acc"] e
    by (simp add: keys_dict_set)
qed

lemma distinct_normalize_loop:
  "distinct (map fst acc) \<Longrightarrow> distinct (map fst (normalize_loop acc fs))"
proof (induction fs arbitrary: acc)
  case Nil
  then show ?case by simp
next
  case (Cons e fs)
  obtain k v where e: "e = (k, v)" by (cases e)
  show ?case using Cons.IH [of "dict_set (snake_to_camel k) v acc"] Cons.prems e
    by (simp add: distinct_dict_set)
qed

lemma normalize_loop_fixed:
  assumes "distinct (map fst (acc @ fs))"
    and "\<And>k. k \<in> fst ` set fs \<Longrightarrow> CHR ''_'' \<notin> set k"
  shows "normalize_loop acc fs = acc @ fs"
  using assms
proof (induction fs arbitrary: acc)
  case Nil
  then show ?case by simp
next
  case (Cons e fs)
  obtain k v where e: "e = (k, v)" by (cases e)
  have same: "snake_to_camel k = k"
    using Cons.prems(2) [of k] e by (simp add: snake_to_camel_id)
  have new: "k \<notin> fst ` set acc" using Cons.prems(1) e by auto
  have "normalize_loop acc (e # fs) = normalize_loop (acc @ [(k, v)]) fs"
    using e same new by (simp add: dict_set_new)
  also have "\<dots> = (acc @ [(k, v)]) @ fs"
  proof (rule Cons.IH)
    show "distinct (map fst ((acc @ [(k, v)]) @ fs))" using Cons.prems(1) e by simp
    show "\<And>k. k \<in> fst ` set fs \<Longrightarrow> CHR ''_'' \<notin> set k" using Cons.prems(2) by simp
  qed
  finally show ?case using e by simp
qed

lemma normalize_filters_for_service_loop:
  "normalize_filters_for_service (Some fs) = normalize_loop [] fs"
  by (cases fs) (simp_all add: normalize_filters_for_service_def)

lemma normalize_keys_no_underscore:
  "k \<in> fst ` set (normalize_filters_for_service filters) \<Longrightarrow> CHR ''_'' \<notin> set k"
proof (cases filters)
  case None
  assume "k \<in> fst ` set (normalize_filters_for_service filters)"
  with None show ?thesis by (simp add: normalize_filters_for_service_def)
next
  case (Some fs)
  assume "k \<in> fst ` set (normalize_filters_for_service filters)"
  with Some have "k \<in> snake_to_camel ` fst ` set fs"
    by (simp add: normalize_filters_for_service_loop keys_normalize_loop)
  then show ?thesis using snake_to_camel_no_underscore by auto
qed

lemma distinct_normalize:
  "distinct (map fst (normalize_filters_for_service filters))"
proof (cases filters)
  case None
  then show ?thesis by (simp add: normalize_filters_for_service_def)
next
  case (Some fs)
  then show ?thesis
    using distinct_normalize_loop [of "[]" fs] by (simp add: normalize_filters_for_service_loop)
qed

lemma normalize_idem:
  "normalize_filters_for_service (Some (normalize_filters_for_service filters)) =
     normalize_filters_for_service filters"
proof -
  let ?out = "normalize_filters_for_service filters"
  have "normalize_loop [] ?out = [] @ ?out"
  proof (rule normalize_loop_fixed)
    show "distinct (map fst ([] @ ?out))" by (simp add: distinct_normalize)
    show "\<And>k. k \<in> fst ` set ?out \<Longrightarrow> CHR ''_'' \<notin> set k"
      by (rule normalize_keys_no_underscore)
  qed
  then show ?thesis by (simp add: normalize_filters_for_service_loop)
qed

lemma normalize_last_wins:
  assumes "fs = pre @ (k, v) # post"
    and "\<And>e. e \<in> set post \<Longrightarrow> snake_to_camel (fst e) \<noteq> snake_to_camel k"
  shows "dict_get (normalize_filters_for_service (Some fs)) (snake_to_camel k) = Some v"
proof -
  let ?f = "\<lambda>(k, v). (snake_to_camel k, v)"
  have none: "map_of (rev (map ?f post)) (snake_to_camel k) = None"
  proof -
    have "snake_to_camel k \<notin> fst ` set (rev (map ?f post))"
    proof
      assume "snake_to_camel k \<in> fst ` set (rev (map ?f post))"
      then obtain e where "e \<in> set post" "snake_to_camel (fst e) = snake_to_camel k"
        by (auto simp: image_iff split: prod.splits)
      with assms(2) show False by blast
    qed
    then show ?thesis by (simp add: map_of_eq_None_iff)
  qed
  have "map_of (rev (map ?f fs)) (snake_to_camel k) = Some v"
    using none by (simp add: assms(1) map_add_def)
  then show ?thesis
    by (simp add: dict_get_def normalize_filters_for_service_loop map_of_normalize_loop)
qed

section \<open>Properties of the loops\<close>

lemma resolve_regions_Inr_iff:
  "resolve_regions acc rs = Inr ns \<longleftrightarrow>
     (\<exists>names. ns = acc @ names \<and> map (dict_get REGION_MAPPING) rs = map Some names)"
proof (induction rs arbitrary: acc)
  case Nil
  then show ?case by auto
next
  case (Cons r rs)
  show ?case
  proof (cases "dict_get REGION_MAPPING r")
    case None
    then show ?thesis by (auto simp: map_eq_Cons_conv)
  next
    case (Some name)
    have "resolve_regions acc (r # rs) = Inr ns \<longleftrightarrow>
            (\<exists>names. ns = (acc @ [name]) @ names \<and>
               map (dict_get REGION_MAPPING) rs = map Some names)"
      using Some Cons.IH [of "acc @ [name]"] by simp
    also have "\<dots> \<longleftrightarrow> (\<exists>names. ns = acc @ names \<and>
               map (dict_get REGION_MAPPING) (r # rs) = map Some names)"
    proof
      assume "\<exists>names. ns = (acc @ [name]) @ names \<and>
               map (dict_get REGION_MAPPING) rs = map Some names"
      then obtain names where "ns = acc @ (name # names)"
        "map (dict_get REGION_MAPPING) (r # rs) = map Some (name # names)"
        using Some by auto
      then show "\<exists>names. ns = acc @ names \<and>
               map (dict_get REGION_MAPPING) (r # rs) = map Some names" by blast
    next
      assume "\<exists>names. ns = acc @ names \<and>
               map (dict_get REGION_MAPPING) (r # rs) = map Some names"
      then obtain names where n: "ns = acc @ names"
        "map (dict_get REGION_MAPPING) (r # rs) = map Some names" by blast
      then obtain names' where "names = name # names'"
        "map (dict_get REGION_MAPPING) rs = map Some names'"
        using Some by (cases names) auto
      with n show "\<exists>names. ns = (acc @ [name]) @ names \<and>
               map (dict_get REGION_MAPPING) rs = map Some names" by auto
    qed
    finally show ?thesis .
  qed
qed

lemma resolve_regions_unknown:
  assumes "r \<in> set rs" and "dict_get REGION_MAPPING r = None"
  shows "\<exists>bad \<in> set rs. dict_get REGION_MAPPING bad = None \<and>
           resolve_regions acc rs = Inl (PricingError (''Unknown region: '' @ bad))"
  using assms
proof (induction rs arbitrary: acc)
  case Nil
  then show ?case by simp
next
  case (Cons x xs)
  show ?case
  proof (cases "dict_get REGION_MAPPING x")
    case None
    then show ?thesis by simp
  next
    case (Some name)
    with Cons.prems have "r \<in> set xs" by auto
    from Cons.IH [OF this Cons.prems(2), of "acc @ [name]"] Some
    show ?thesis by auto
  qed
qed

lemma regions_to_query_nonempty: "names \<noteq> [] \<Longrightarrow> regions_to_query names = Inr names"
  by (cases names; cases "tl names") (auto simp: regions_to_query_def)

lemma regions_to_query_Inr: "regions_to_query names = Inr ns \<Longrightarrow> names \<noteq> [] \<and> ns = names"
  by (cases names; cases "tl names") (auto simp: regions_to_query_def)

lemma parse_price_list_append:
  "parse_price_list c r (xs @ ys) w recs =
     (case parse_price_list c r xs w recs of
        (w', Inl e) \<Rightarrow> (w', Inl e)
      | (w', Inr recs') \<Rightarrow> parse_price_list c r ys w' recs')"
  by (induction xs arbitrary: w recs) (auto split: option.splits sum.splits)

lemma collect_pages_concat:
  "collect_pages c r pages w recs = parse_price_list c r (concat pages) w recs"
  by (induction pages arbitrary: w recs)
    (auto simp: parse_price_list_append split: prod.splits sum.splits)

lemma parse_price_list_ok:
  "\<forall>s \<in> set docs. malformed c s \<or> is_document c s \<Longrightarrow>
     parse_price_list c r docs w recs =
       (\<lparr>queries = queries w, files = files w,
          warnings = warnings w @ filter (malformed c) docs\<rparr>,
        Inr (recs @ tag_documents c r docs))"
proof (induction docs arbitrary: w recs)
  case Nil
  then show ?case by (simp add: tag_documents_def)
next
  case (Cons s docs)
  from Cons.prems have rest: "\<forall>s \<in> set docs. malformed c s \<or> is_document c s"
    and here: "malformed c s \<or> is_document c s"
    by simp_all
  show ?case
  proof (cases "json_loads c s")
    case None
    then show ?thesis
      using Cons.IH [OF rest] by (simp add: malformed_def tag_documents_def)
  next
    case (Some d)
    then obtain kvs where "d = JObj kvs"
      using here by (auto simp: malformed_def is_document_def split: json.splits)
    with Some show ?thesis
      using Cons.IH [OF rest] by (simp add: malformed_def tag_documents_def set_item_def)
  qed
qed

lemma parse_price_list_InrD:
  "parse_price_list c r docs w recs = (w', Inr recs') \<Longrightarrow>
     \<forall>s \<in> set docs. malformed c s \<or> is_document c s"
proof (induction docs arbitrary: w recs)
  case Nil
  then show ?case by simp
next
  case (Cons x docs)
  show ?case
  proof (cases "json_loads c x")
    case None
    with Cons.prems have
      "parse_price_list c r docs (w\<lparr>warnings := warnings w @ [x]\<rparr>) recs = (w', Inr recs')"
      by simp
    from Cons.IH [OF this] None show ?thesis by (simp add: malformed_def)
  next
    case (Some d)
    show ?thesis
    proof (cases "set_item d ''queryRegion'' (JStr r)")
      case (Inl e)
      with Some Cons.prems show ?thesis by simp
    next
      case (Inr tagged)
      with Some Cons.prems have
        "parse_price_list c r docs w (recs @ [tagged]) = (w', Inr recs')" by simp
      from Cons.IH [OF this] have "\<forall>s \<in> set docs. malformed c s \<or> is_document c s" .
      moreover have "is_document c x"
        using Some Inr by (cases d) (simp_all add: is_document_def set_item_def)
      ultimately show ?thesis by simp
    qed
  qed
qed

lemma query_region_ok:
  assumes "snd (get_products c (region_query sc ff mr n)) = None"
    and "\<forall>s \<in> set (concat (fst (get_products c (region_query sc ff mr n)))).
           malformed c s \<or> is_document c s"
  shows "query_region c sc ff mr n w all =
           (\<lparr>queries = queries w @ [region_query sc ff mr n], files = files w,
              warnings = warnings w @
                filter (malformed c) (concat (fst (get_products c (region_query sc ff mr n))))\<rparr>,
            Inr (all @ tag_documents c n
                   (concat (fst (get_products c (region_query sc ff mr n))))))"
proof -
  let ?q = "region_query sc ff mr n"
  obtain pages failure where gp: "get_products c ?q = (pages, failure)"
    by (cases "get_products c ?q")
  with assms(1) have f: "failure = None" by simp
  have "collect_pages c n pages (w\<lparr>queries := queries w @ [?q]\<rparr>) [] =
          (\<lparr>queries = queries w @ [?q], files = files w,
             warnings = warnings w @ filter (malformed c) (concat pages)\<rparr>,
           Inr ([] @ tag_documents c n (concat pages)))"
    unfolding collect_pages_concat
    using parse_price_list_ok [of "concat pages" c n "w\<lparr>queries := queries w @ [?q]\<rparr>" "[]"]
      assms(2) gp by simp
  then show ?thesis using gp f by (simp add: query_region_def Let_def)
qed

lemma query_region_InrD:
  assumes "query_region c sc ff mr n w all = (w', Inr all')"
  shows "snd (get_products c (region_query sc ff mr n)) = None \<and>
         (\<forall>s \<in> set (concat (fst (get_products c (region_query sc ff mr n)))).
            malformed c s \<or> is_document c s)"
proof -
  let ?q = "region_query sc ff mr n"
  obtain pages failure where gp: "get_products c ?q = (pages, failure)"
    by (cases "get_products c ?q")
  obtain w2 res where cp:
    "collect_pages c n pages (w\<lparr>queries := queries w @ [?q]\<rparr>) [] = (w2, res)"
    by (cases "collect_pages c n pages (w\<lparr>queries := queries w @ [?q]\<rparr>) []")
  from assms gp cp obtain recs where res: "res = Inr recs" and f: "failure = None"
    by (cases res; cases failure) (simp_all add: query_region_def Let_def)
  from cp res have "parse_price_list c n (concat pages)
      (w\<lparr>queries := queries w @ [?q]\<rparr>) [] = (w2, Inr recs)"
    by (simp add: collect_pages_concat)
  then have "\<forall>s \<in> set (concat pages). malformed c s \<or> is_document c s"
    by (rule parse_price_list_InrD)
  with gp f show ?thesis by simp
qed



lemma region_loop_ok:
  assumes "\<forall>n \<in> set names.
      snd (get_products c (region_query sc ff mr n)) = None \<and>
      (\<forall>s \<in> set (concat (fst (get_products c (region_query sc ff mr n)))).
         malformed c s \<or> is_document c s)"
  shows "region_loop c sc ff mr names w all =
           (\<lparr>queries = queries w @ map (region_query sc ff mr) names, files = files w,
              warnings = warnings w @ concat (map (\<lambda>n. filter (malformed c)
                (concat (fst (get_products c (region_query sc ff mr n))))) names)\<rparr>,
            Inr (all @ concat (map (\<lambda>n. tag_documents c n
                   (concat (fst (get_products c (region_query sc ff mr n))))) names)))"
  using assms
proof (induction names arbitrary: w all)
  case Nil
  then show ?case by simp
next
  case (Cons n names)
  have both: "snd (get_products c (region_query sc ff mr n)) = None \<and>
      (\<forall>s \<in> set (concat (fst (get_products c (region_query sc ff mr n)))).
         malformed c s \<or> is_document c s)"
    using Cons.prems by simp
  then have here: "snd (get_products c (region_query sc ff mr n)) = None" ..
  from both have docs: "\<forall>s \<in> set (concat (fst (get_products c (region_query sc ff mr n)))).
           malformed c s \<or> is_document c s" ..
  have rest: "\<forall>m \<in> set names.
      snd (get_products c (region_query sc ff mr m)) = None \<and>
      (\<forall>s \<in> set (concat (fst (get_products c (region_query sc ff mr m)))).
         malformed c s \<or> is_document c s)"
    using Cons.prems by simp
  note q = query_region_ok [of c sc ff mr n w all, OF here docs]
  show ?case
    unfolding region_loop.simps q by (simp add: Cons.IH [OF rest])
qed

lemma region_loop_InrD:
  "region_loop c sc ff mr names w all = (w', Inr all') \<Longrightarrow>
     \<forall>n \<in> set names.
       snd (get_products c (region_query sc ff mr n)) = None \<and>
       (\<forall>s \<in> set (concat (fst (get_products c (region_query sc ff mr n)))).
          malformed c s \<or> is_document c s)"
proof (induction names arbitrary: w all)
  case Nil
  then show ?case by simp
next
  case (Cons n names)
  obtain w1 r1 where q: "query_region c sc ff mr n w all = (w1, r1)"
    by (cases "query_region c sc ff mr n w all")
  with Cons.prems obtain all1 where r1: "r1 = Inr all1"
    and loop: "region_loop c sc ff mr names w1 all1 = (w', Inr all')"
    by (cases r1) simp_all
  from q r1 have "snd (get_products c (region_query sc ff mr n)) = None \<and>
         (\<forall>s \<in> set (concat (fst (get_products c (region_query sc ff mr n)))).
            malformed c s \<or> is_document c s)"
    using query_region_InrD by simp
  with Cons.IH [OF loop] show ?case by simp
qed


section \<open>Properties of the handler\<close>

lemma handler_ok:
  assumes names: "map (dict_get REGION_MAPPING) (req_regions args) = map Some names"
    and ne: "names \<noteq> []"
    and ok: "answers_ok c args names"
  shows "handler c w args =
           write_results c
             \<lparr>queries = queries w @ map (req_query args names) names, files = files w,
              warnings = warnings w @ req_warnings c args names\<rparr>
             (arg_service_code args) (req_regions args) (req_final_filters args names)
             (arg_result_file_path args) (req_records c args names)"
proof -
  have res: "resolve_regions [] (arguments_get (arg_regions args) [''us-east-1'']) = Inr names"
    using names by (simp add: resolve_regions_Inr_iff req_regions_def)
  have rtq: "regions_to_query names = Inr names"
    using ne by (rule regions_to_query_nonempty)
  have q: "region_query (arg_service_code args)
      (add_region_filter names
        (normalize_filters_for_service (Some (arguments_get (arg_filters args) []))))
      (arguments_get (arg_max_records args) 50) = req_query args names"
    by (rule ext) (simp add: req_query_def req_final_filters_def)
  have "\<forall>n \<in> set names.
      snd (get_products c (region_query (arg_service_code args) (req_final_filters args names)
          (arguments_get (arg_max_records args) 50) n)) = None \<and>
      (\<forall>s \<in> set (concat (fst (get_products c (region_query (arg_service_code args)
          (req_final_filters args names) (arguments_get (arg_max_records args) 50) n)))).
         malformed c s \<or> is_document c s)"
    using ok by (simp add: answers_ok_def req_docs_def req_query_def)
  from region_loop_ok [OF this, of w "[]"]
  have loop: "region_loop c (arg_service_code args) (req_final_filters args names)
      (arguments_get (arg_max_records args) 50) names w [] =
      (\<lparr>queries = queries w @ map (req_query args names) names, files = files w,
         warnings = warnings w @ req_warnings c args names\<rparr>,
       Inr (req_records c args names))"
    by (simp add: req_warnings_def req_records_def req_docs_def req_query_def [abs_def])
  show ?thesis
    unfolding handler_def Let_def res rtq sum.case
    using loop by (simp add: req_final_filters_def req_regions_def)
qed

lemma handler_InrD:
  assumes "handler c w args = (w', Inr resp)"
  shows "\<exists>names. map (dict_get REGION_MAPPING) (req_regions args) = map Some names \<and>
           names \<noteq> [] \<and> answers_ok c args names"
proof -
  obtain names where res:
    "resolve_regions [] (arguments_get (arg_regions args) [''us-east-1'']) = Inr names"
    using assms
    by (cases "resolve_regions [] (arguments_get (arg_regions args) [''us-east-1''])")
      (simp_all add: handler_def Let_def)
  obtain ns where rtq: "regions_to_query names = Inr ns"
    using assms res by (cases "regions_to_query names") (simp_all add: handler_def Let_def)
  then have ne: "names \<noteq> []" and ns: "ns = names"
    using regions_to_query_Inr by blast+
  let ?loop = "region_loop c (arg_service_code args) (req_final_filters args names)
      (arguments_get (arg_max_records args) 50) names w []"
  obtain w1 r1 where loop: "?loop = (w1, r1)" by (cases ?loop)
  with assms res rtq ns obtain recs where "r1 = Inr recs"
    by (cases r1) (simp_all add: handler_def Let_def req_final_filters_def)
  with loop have "?loop = (w1, Inr recs)" by simp
  from region_loop_InrD [OF this] have "answers_ok c args names"
    by (simp add: answers_ok_def req_docs_def req_query_def)
  moreover have "map (dict_get REGION_MAPPING) (req_regions args) = map Some names"
    using res by (simp add: resolve_regions_Inr_iff req_regions_def)
  ultimately show ?thesis using ne by blast
qed

lemma handler_unknown:
  assumes "r \<in> set (req_regions args)" and "dict_get REGION_MAPPING r = None"
  shows "\<exists>bad \<in> set (req_regions args). dict_get REGION_MAPPING bad = None \<and>
           handler c w args = (w, Inl (PricingError (''Unknown region: '' @ bad)))"
proof -
  from resolve_regions_unknown [OF assms, of "[]"] obtain bad where
    bad: "bad \<in> set (req_regions args)" "dict_get REGION_MAPPING bad = None"
    and res: "resolve_regions [] (req_regions args) = Inl (PricingError (''Unknown region: '' @ bad))"
    by blast
  from res have "handler c w args = (w, Inl (PricingError (''Unknown region: '' @ bad)))"
    by (simp add: handler_def Let_def req_regions_def)
  with bad show ?thesis by blast
qed

lemma handler_empty_regions:
  assumes "req_regions args = []"
  shows "handler c w args = (w, Inl IndexError)"
  using assms by (simp add: handler_def Let_def req_regions_def regions_to_query_def)

lemma names_unique:
  "map f rs = map Some names \<Longrightarrow> map f rs = map Some names' \<Longrightarrow> names = names'"
  by (metis list.inj_map_strong option.inject)

lemma write_results_InrD:
  assumes "write_results c w0 sc rs ff p all = (w', Inr resp)"
  shows "\<exists>call. w' = w0\<lparr>files := files w0 @ [call]\<rparr> \<and> put_file c call = None \<and>
           pf_file_path call = choose_result_path c sc p \<and>
           pf_file_type call = ''ratio::file'' \<and>
           pf_data call =
             \<lparr>env_service_code = sc, env_regions_queried = rs, env_filters_applied = ff,
              env_record_count = length all, env_pricing_records = all\<rparr> \<and>
           pf_metadata call =
             \<lparr>md_service_code = sc, md_regions = rs, md_record_count = length all\<rparr> \<and>
           resp =
             \<lparr>resp_pricing_records = take 10 all,
              resp_result_file_path = choose_result_path c sc p,
              resp_service_code = sc, resp_regions_queried = rs,
              resp_record_count = length all, resp_filters_applied = ff\<rparr>"
proof -
  let ?call = "\<lparr>pf_file_path = choose_result_path c sc p, pf_file_type = ''ratio::file'',
      pf_data = \<lparr>env_service_code = sc, env_regions_queried = rs, env_filters_applied = ff,
              env_record_count = length all, env_pricing_records = all\<rparr>,
      pf_metadata = \<lparr>md_service_code = sc, md_regions = rs, md_record_count = length all\<rparr>\<rparr>"
  from assms have ok: "put_file c ?call = None"
    by (cases "put_file c ?call") (simp_all add: write_results_def Let_def)
  with assms have "w' = w0\<lparr>files := files w0 @ [?call]\<rparr>"
    and "resp = \<lparr>resp_pricing_records = take 10 all,
              resp_result_file_path = choose_result_path c sc p,
              resp_service_code = sc, resp_regions_queried = rs,
              resp_record_count = length all, resp_filters_applied = ff\<rparr>"
    by (auto simp: write_results_def Let_def)
  with ok show ?thesis by (intro exI [of _ ?call]) simp
qed


lemma handler_success:
  assumes "handler c w args = (w', Inr resp)"
  shows "\<exists>names call.
           map (dict_get REGION_MAPPING) (req_regions args) = map Some names \<and>
           names \<noteq> [] \<and> answers_ok c args names \<and>
           queries w' = queries w @ map (req_query args names) names \<and>
           files w' = files w @ [call] \<and>
           warnings w' = warnings w @ req_warnings c args names \<and>
           put_file c call = None \<and>
           pf_file_path call =
             choose_result_path c (arg_service_code args) (arg_result_file_path args) \<and>
           pf_file_type call = ''ratio::file'' \<and>
           pf_data call =
             \<lparr>env_service_code = arg_service_code args,
              env_regions_queried = req_regions args,
              env_filters_applied = req_final_filters args names,
              env_record_count = length (req_records c args names),
              env_pricing_records = req_records c args names\<rparr> \<and>
           pf_metadata call =
             \<lparr>md_service_code = arg_service_code args, md_regions = req_regions args,
              md_record_count = length (req_records c args names)\<rparr> \<and>
           resp =
             \<lparr>resp_pricing_records = take 10 (req_records c args names),
              resp_result_file_path =
                choose_result_path c (arg_service_code args) (arg_result_file_path args),
              resp_service_code = arg_service_code args,
              resp_regions_queried = req_regions args,
              resp_record_count = length (req_records c args names),
              resp_filters_applied = req_final_filters args names\<rparr>"
proof -
  from handler_InrD [OF assms] obtain names where
    names: "map (dict_get REGION_MAPPING) (req_regions args) = map Some names"
    and ne: "names \<noteq> []" and ok: "answers_ok c args names" by blast
  let ?w0 = "\<lparr>queries = queries w @ map (req_query args names) names, files = files w,
              warnings = warnings w @ req_warnings c args names\<rparr>"
  have "write_results c ?w0 (arg_service_code args) (req_regions args)
          (req_final_filters args names) (arg_result_file_path args)
          (req_records c args names) = (w', Inr resp)"
    using handler_ok [OF names ne ok, of w] assms by simp
  from write_results_InrD [OF this] obtain call where
    w': "w' = ?w0\<lparr>files := files ?w0 @ [call]\<rparr>" and
    rest: "put_file c call = None"
      "pf_file_path call =
         choose_result_path c (arg_service_code args) (arg_result_file_path args)"
      "pf_file_type call = ''ratio::file''"
      "pf_data call =
             \<lparr>env_service_code = arg_service_code args,
              env_regions_queried = req_regions args,
              env_filters_applied = req_final_filters args names,
              env_record_count = length (req_records c args names),
              env_pricing_records = req_records c args names\<rparr>"
      "pf_metadata call =
             \<lparr>md_service_code = arg_service_code args, md_regions = req_regions args,
              md_record_count = length (req_records c args names)\<rparr>"
      "resp =
             \<lparr>resp_pricing_records = take 10 (req_records c args names),
              resp_result_file_path =
                choose_result_path c (arg_service_code args) (arg_result_file_path args),
              resp_service_code = arg_service_code args,
              resp_regions_queried = req_regions args,
              resp_record_count = length (req_records c args names),
              resp_filters_applied = req_final_filters args names\<rparr>"
    by blast
  from w' have "queries w' = queries w @ map (req_query args names) names"
    "files w' = files w @ [call]" "warnings w' = warnings w @ req_warnings c args names"
    by simp_all
  with names ne ok rest show ?thesis by blast
qed


lemma parse_price_list_error:
  "parse_price_list c r docs w recs = (w', Inl e) \<Longrightarrow> e = TypeError"
proof (induction docs arbitrary: w recs)
  case Nil
  then show ?case by simp
next
  case (Cons x docs)
  show ?case
  proof (cases "json_loads c x")
    case None
    with Cons.prems have
      "parse_price_list c r docs (w\<lparr>warnings := warnings w @ [x]\<rparr>) recs = (w', Inl e)"
      by simp
    then show ?thesis by (rule Cons.IH)
  next
    case (Some d)
    show ?thesis
    proof (cases "set_item d ''queryRegion'' (JStr r)")
      case (Inl e')
      then have "e' = TypeError" by (cases d) (simp_all add: set_item_def)
      with Inl Some Cons.prems show ?thesis by simp
    next
      case (Inr tagged)
      with Some Cons.prems have
        "parse_price_list c r docs w (recs @ [tagged]) = (w', Inl e)" by simp
      then show ?thesis by (rule Cons.IH)
    qed
  qed
qed

lemma query_region_error:
  assumes "query_region c sc ff mr n w all = (w', Inl e)"
  shows "e \<noteq> IndexError"
proof -
  let ?q = "region_query sc ff mr n"
  obtain pages failure where gp: "get_products c ?q = (pages, failure)"
    by (cases "get_products c ?q")
  obtain w2 r2 where cp:
    "collect_pages c n pages (w\<lparr>queries := queries w @ [?q]\<rparr>) [] = (w2, r2)"
    by (cases "collect_pages c n pages (w\<lparr>queries := queries w @ [?q]\<rparr>) []")
  show ?thesis
  proof (cases r2)
    case (Inl e2)
    with cp have "parse_price_list c n (concat pages)
      (w\<lparr>queries := queries w @ [?q]\<rparr>) [] = (w2, Inl e2)"
      by (simp add: collect_pages_concat)
    then have "e2 = TypeError" by (rule parse_price_list_error)
    with assms gp cp Inl show ?thesis by (simp add: query_region_def Let_def)
  next
    case (Inr recs)
    with assms gp cp show ?thesis
      by (cases failure) (auto simp: query_region_def Let_def)
  qed
qed

lemma region_loop_error:
  "region_loop c sc ff mr names w all = (w', Inl e) \<Longrightarrow> e \<noteq> IndexError"
proof (induction names arbitrary: w all)
  case Nil
  then show ?case by simp
next
  case (Cons n names)
  obtain w1 r1 where q: "query_region c sc ff mr n w all = (w1, r1)"
    by (cases "query_region c sc ff mr n w all")
  show ?case
  proof (cases r1)
    case (Inl e1)
    with q Cons.prems have "query_region c sc ff mr n w all = (w', Inl e)" by simp
    then show ?thesis by (rule query_region_error)
  next
    case (Inr all1)
    with q Cons.prems have "region_loop c sc ff mr names w1 all1 = (w', Inl e)" by simp
    then show ?thesis by (rule Cons.IH)
  qed
qed

lemma write_results_error:
  "write_results c w0 sc rs ff p all = (w', Inl e) \<Longrightarrow> e \<noteq> IndexError"
  by (auto simp: write_results_def Let_def split: option.splits)

lemma handler_index_in_bounds:
  assumes "req_regions args \<noteq> []"
  shows "snd (handler c w args) \<noteq> Inl IndexError"
proof (cases "resolve_regions [] (req_regions args)")
  case (Inl e)
  have "e \<noteq> IndexError"
  proof (cases "\<exists>r \<in> set (req_regions args). dict_get REGION_MAPPING r = None")
    case True
    then obtain r where "r \<in> set (req_regions args)" "dict_get REGION_MAPPING r = None"
      by blast
    from resolve_regions_unknown [OF this, of "[]"] Inl show ?thesis by auto
  next
    case False
    then have "\<forall>r \<in> set (req_regions args). \<exists>n. dict_get REGION_MAPPING r = Some n" by auto
    then obtain f where "\<forall>r \<in> set (req_regions args). dict_get REGION_MAPPING r = Some (f r)"
      by metis
    then have "map (dict_get REGION_MAPPING) (req_regions args)
      = map Some (map f (req_regions args))" by simp
    then have "resolve_regions [] (req_regions args) = Inr (map f (req_regions args))"
      by (simp add: resolve_regions_Inr_iff)
    with Inl show ?thesis by simp
  qed
  with Inl show ?thesis by (simp add: handler_def Let_def req_regions_def)
next
  case (Inr names)
  then have "map (dict_get REGION_MAPPING) (req_regions args) = map Some names"
    by (simp add: resolve_regions_Inr_iff)
  with assms have ne: "names \<noteq> []" by auto
  then have rtq: "regions_to_query names = Inr names" by (rule regions_to_query_nonempty)
  let ?loop = "region_loop c (arg_service_code args)
      (add_region_filter names
        (normalize_filters_for_service (Some (arguments_get (arg_filters args) []))))
      (arguments_get (arg_max_records args) 50) names w []"
  obtain w1 r1 where loop: "?loop = (w1, r1)" by (cases ?loop)
  show ?thesis
  proof (cases r1)
    case (Inl e)
    with loop have "e \<noteq> IndexError" using region_loop_error by blast
    with Inl loop Inr rtq show ?thesis by (simp add: handler_def Let_def req_regions_def)
  next
    case (Inr all)
    let ?wr = "write_results c w1 (arg_service_code args) (req_regions args)
      (add_region_filter names
        (normalize_filters_for_service (Some (arguments_get (arg_filters args) []))))
      (arg_result_file_path args) all"
    have h: "handler c w args = ?wr"
      using Inr loop \<open>resolve_regions [] (req_regions args) = Inr names\<close> rtq
      by (simp add: handler_def Let_def req_regions_def)
    obtain w2 r2 where wr: "?wr = (w2, r2)" by (cases ?wr)
    show ?thesis
    proof (cases r2)
      case (Inl e)
      with wr have "e \<noteq> IndexError" using write_results_error by blast
      with h wr Inl show ?thesis by simp
    next
      case (Inr resp)
      with h wr show ?thesis by simp
    qed
  qed
qed

section \<open>The filter normalizer\<close>

lemma snake_to_camel_segments:
  assumes "CHR ''_'' \<in> set k"
  shows "\<exists>first rest. k = str_join (CHR ''_'') (first # rest) \<and> rest \<noteq> [] \<and>
           (\<forall>s \<in> set (first # rest). CHR ''_'' \<notin> set s) \<and>
           snake_to_camel k = first @ concat (map capitalize rest)"
proof -
  obtain w ws where ws: "str_split (CHR ''_'') k = w # ws"
    using str_split_nonempty [of "CHR ''_''" k] by (cases "str_split (CHR ''_'') k") auto
  have join: "k = str_join (CHR ''_'') (w # ws)"
    using str_join_split [of "CHR ''_''" k] ws by simp
  have clean: "\<forall>s \<in> set (w # ws). CHR ''_'' \<notin> set s"
    using str_split_no_sep [of _ "CHR ''_''" k] ws by simp
  have "ws \<noteq> []"
  proof
    assume "ws = []"
    with join have "k = w" by simp
    with clean assms show False by simp
  qed
  moreover have "snake_to_camel k = w @ concat (map capitalize ws)"
    using assms ws by (simp add: snake_to_camel_def)
  ultimately show ?thesis using join clean by blast
qed

text \<open>
  C2, as amended. Normalisation converts every key: the keys of the result are the
  converted keys of the input. A key with an underscore becomes its first segment followed
  by the capitalised later segments, with no underscore left; a key without one is
  unchanged. The value of a key is stored unchanged under its converted key unless a later
  key of the mapping converts to the same key (then the later value replaces it). An
  absent and an empty mapping give the empty mapping.
\<close>

theorem normalize_filters_contract:
  fixes fs :: "'v dict"
  shows
  "fst ` set (normalize_filters_for_service (Some fs)) = snake_to_camel ` fst ` set fs \<and>
   (\<forall>k. CHR ''_'' \<notin> set k \<longrightarrow> snake_to_camel k = k) \<and>
   (\<forall>k. CHR ''_'' \<in> set k \<longrightarrow>
      CHR ''_'' \<notin> set (snake_to_camel k) \<and>
      (\<exists>first rest. k = str_join (CHR ''_'') (first # rest) \<and> rest \<noteq> [] \<and>
         (\<forall>s \<in> set (first # rest). CHR ''_'' \<notin> set s) \<and>
         snake_to_camel k = first @ concat (map capitalize rest))) \<and>
   (\<forall>pre k v post.
      fs = pre @ (k, v) # post \<and>
      (\<forall>e \<in> set post. snake_to_camel (fst e) \<noteq> snake_to_camel k) \<longrightarrow>
      dict_get (normalize_filters_for_service (Some fs)) (snake_to_camel k) = Some v) \<and>
   normalize_filters_for_service None = ([] :: 'v dict) \<and>
   normalize_filters_for_service (Some []) = ([] :: 'v dict)"
proof (intro conjI allI impI)
  show "fst ` set (normalize_filters_for_service (Some fs)) = snake_to_camel ` fst ` set fs"
    by (simp add: normalize_filters_for_service_loop keys_normalize_loop)
next
  fix k :: string
  assume "CHR ''_'' \<notin> set k"
  then show "snake_to_camel k = k" by (rule snake_to_camel_id)
next
  fix k :: string
  show "CHR ''_'' \<notin> set (snake_to_camel k)" by (rule snake_to_camel_no_underscore)
next
  fix k :: string
  assume "CHR ''_'' \<in> set k"
  then show "\<exists>first rest. k = str_join (CHR ''_'') (first # rest) \<and> rest \<noteq> [] \<and>
         (\<forall>s \<in> set (first # rest). CHR ''_'' \<notin> set s) \<and>
         snake_to_camel k = first @ concat (map capitalize rest)"
    by (rule snake_to_camel_segments)
next
  fix pre post :: "'v dict" and k v
  assume a: "fs = pre @ (k, v) # post \<and>
      (\<forall>e \<in> set post. snake_to_camel (fst e) \<noteq> snake_to_camel k)"
  then have "fs = pre @ (k, v) # post"
    and "\<And>e. e \<in> set post \<Longrightarrow> snake_to_camel (fst e) \<noteq> snake_to_camel k"
    by blast+
  then show "dict_get (normalize_filters_for_service (Some fs)) (snake_to_camel k) = Some v"
    by (rule normalize_last_wins)
next
  show "normalize_filters_for_service None = ([] :: 'v dict)"
    by (simp add: normalize_filters_for_service_def)
next
  show "normalize_filters_for_service (Some []) = ([] :: 'v dict)"
    by (simp add: normalize_filters_for_service_def)
qed

theorem normalize_filters_contract_witness:
  "dict_get (normalize_filters_for_service
      (Some [(''instance_type'', JStr ''m5.large''), (''tenancy'', JStr ''Shared'')]))
     (snake_to_camel ''instance_type'') = Some (JStr ''m5.large'') \<and>
   snake_to_camel ''tenancy'' = ''tenancy'' \<and>
   CHR ''_'' \<notin> set (snake_to_camel ''instance_type'')"
proof -
  let ?fs = "[(''instance_type'', JStr ''m5.large''), (''tenancy'', JStr ''Shared'')]"
  note c = normalize_filters_contract [of ?fs]
  have split: "?fs = [] @ (''instance_type'', JStr ''m5.large'') # [(''tenancy'', JStr ''Shared'')]
      \<and> (\<forall>e \<in> set [(''tenancy'', JStr ''Shared'')].
            snake_to_camel (fst e) \<noteq> snake_to_camel ''instance_type'')"
    by code_simp
  from c have "\<forall>pre k v post.
      ?fs = pre @ (k, v) # post \<and>
      (\<forall>e \<in> set post. snake_to_camel (fst e) \<noteq> snake_to_camel k) \<longrightarrow>
      dict_get (normalize_filters_for_service (Some ?fs)) (snake_to_camel k) = Some v"
    by blast
  with split have 1: "dict_get (normalize_filters_for_service (Some ?fs))
      (snake_to_camel ''instance_type'') = Some (JStr ''m5.large'')" by blast
  have u1: "CHR ''_'' \<notin> set ''tenancy''" and u2: "CHR ''_'' \<in> set ''instance_type''"
    by simp_all
  from c u1 have 2: "snake_to_camel ''tenancy'' = ''tenancy''" by blast
  from c u2 have 3: "CHR ''_'' \<notin> set (snake_to_camel ''instance_type'')" by blast
  from 1 2 3 show ?thesis by blast
qed

theorem normalize_filters_collision_counterexample:
  "normalize_filters_for_service
     (Some [(''instance_type'', JStr ''m5.large''), (''instanceType'', JStr ''t3.micro'')])
     = [(''instanceType'', JStr ''t3.micro'')] \<and>
   dict_get (normalize_filters_for_service
     (Some [(''instance_type'', JStr ''m5.large''), (''instanceType'', JStr ''t3.micro'')]))
     (snake_to_camel ''instance_type'') \<noteq> Some (JStr ''m5.large'')"
  by code_simp

text \<open>
  C9. Normalisation is idempotent: its output has no key with an underscore, every such
  key is left as it is, and normalising the output again returns it unchanged.
\<close>

theorem normalize_filters_idempotent:
  "normalize_filters_for_service (Some (normalize_filters_for_service filters)) =
     normalize_filters_for_service filters \<and>
   (\<forall>k \<in> fst ` set (normalize_filters_for_service filters).
      CHR ''_'' \<notin> set k \<and> snake_to_camel k = k)"
proof
  show "normalize_filters_for_service (Some (normalize_filters_for_service filters)) =
     normalize_filters_for_service filters"
    by (rule normalize_idem)
next
  show "\<forall>k \<in> fst ` set (normalize_filters_for_service filters).
      CHR ''_'' \<notin> set k \<and> snake_to_camel k = k"
  proof
    fix k
    assume "k \<in> fst ` set (normalize_filters_for_service filters)"
    then have "CHR ''_'' \<notin> set k" by (rule normalize_keys_no_underscore)
    then show "CHR ''_'' \<notin> set k \<and> snake_to_camel k = k"
      by (simp add: snake_to_camel_id)
  qed
qed

theorem normalize_filters_idempotent_witness:
  "normalize_filters_for_service (Some (normalize_filters_for_service
      (Some [(''instance_type'', JStr ''m5.large''), (''operating_system'', JStr ''Linux'')])))
   = [(''instanceType'', JStr ''m5.large''), (''operatingSystem'', JStr ''Linux'')]"
proof -
  let ?fs = "Some [(''instance_type'', JStr ''m5.large''), (''operating_system'', JStr ''Linux'')]"
  have "normalize_filters_for_service ?fs =
      [(''instanceType'', JStr ''m5.large''), (''operatingSystem'', JStr ''Linux'')]"
    by code_simp
  with normalize_filters_idempotent [of ?fs] show ?thesis by simp
qed

section \<open>Requests that fail before any query\<close>

lemma success_cases: "\<not> isl (snd p) \<Longrightarrow> \<exists>w' resp. p = (w', Inr resp)"
  by (cases p; cases "snd p") auto

lemma names_length:
  "map f rs = map Some names \<Longrightarrow> length names = length rs"
  by (metis length_map)

lemma filters_of_build_api_filters:
  "map (\<lambda>f. (flt_Field f, flt_Value f)) (build_api_filters d) = d"
  by (induction d) (auto simp: build_api_filters_def)

lemma query_location_req_query:
  "query_location (req_query args names n) = Some (JStr n)"
  by (simp add: query_location_def req_query_def region_query_def Let_def
      filters_of_build_api_filters map_of_dict_set)

text \<open>
  C3. When the regions of a request contain a code that is not in the region table, the
  invocation ends with the pricing error of the first such code and the outside world is
  left as it was: no query has been issued and no file written.
\<close>

theorem unknown_region_fails_fast:
  assumes "r \<in> set (req_regions args)" and "dict_get REGION_MAPPING r = None"
  shows "\<exists>bad \<in> set (req_regions args).
           dict_get REGION_MAPPING bad = None \<and>
           handler c w args = (w, Inl (PricingError (''Unknown region: '' @ bad))) \<and>
           queries (fst (handler c w args)) = queries w \<and>
           files (fst (handler c w args)) = files w"
proof -
  from handler_unknown [OF assms, of c w] obtain bad where
    "bad \<in> set (req_regions args)" "dict_get REGION_MAPPING bad = None"
    and h: "handler c w args = (w, Inl (PricingError (''Unknown region: '' @ bad)))"
    by blast
  moreover from h have "queries (fst (handler c w args)) = queries w"
    "files (fst (handler c w args)) = files w" by simp_all
  ultimately show ?thesis by blast
qed

theorem unknown_region_fails_fast_witness:
  "handler example_collab example_world
     (example_request\<lparr>arg_regions := Some [''us-east-1'', ''mars-1'']\<rparr>) =
   (example_world, Inl (PricingError ''Unknown region: mars-1''))"
proof -
  let ?args = "example_request\<lparr>arg_regions := Some [''us-east-1'', ''mars-1'']\<rparr>"
  have regs: "req_regions ?args = [''us-east-1'', ''mars-1'']"
    by (simp add: req_regions_def arguments_get_def example_request_def)
  have unknown: "dict_get REGION_MAPPING ''mars-1'' = None" by code_simp
  have known: "dict_get REGION_MAPPING ''us-east-1'' \<noteq> None" by code_simp
  have "''mars-1'' \<in> set (req_regions ?args)" using regs by simp
  from unknown_region_fails_fast [OF this unknown, of example_collab example_world]
  obtain bad where "bad \<in> set (req_regions ?args)" "dict_get REGION_MAPPING bad = None"
    and h: "handler example_collab example_world ?args =
      (example_world, Inl (PricingError (''Unknown region: '' @ bad)))" by blast
  with regs known have "bad = ''mars-1''" by auto
  with h show ?thesis by simp
qed

text \<open>
  C10. With a non-empty list of regions, and so also when the argument is left out and the
  default applies, the handler never ends in an indexing error. With an explicitly empty
  list neither the single-region merge nor the multi-region choice applies, the index of
  the first display name is out of range, and the invocation ends with the raw indexing
  error, not with a pricing error, before any effect.
\<close>

theorem empty_regions_index_error:
  "(req_regions args \<noteq> [] \<longrightarrow> snd (handler c w args) \<noteq> Inl IndexError) \<and>
   (arg_regions args = None \<longrightarrow>
      req_regions args = [''us-east-1''] \<and> snd (handler c w args) \<noteq> Inl IndexError) \<and>
   (arg_regions args = Some [] \<longrightarrow>
      add_region_filter [] ff = ff \<and>
      regions_to_query [] = Inl IndexError \<and>
      handler c w args = (w, Inl IndexError) \<and>
      (\<forall>msg. snd (handler c w args) \<noteq> Inl (PricingError msg)))"
proof (intro conjI impI)
  assume "req_regions args \<noteq> []"
  then show "snd (handler c w args) \<noteq> Inl IndexError" by (rule handler_index_in_bounds)
next
  assume "arg_regions args = None"
  then show "req_regions args = [''us-east-1'']"
    by (simp add: req_regions_def arguments_get_def)
next
  assume "arg_regions args = None"
  then have "req_regions args \<noteq> []" by (simp add: req_regions_def arguments_get_def)
  then show "snd (handler c w args) \<noteq> Inl IndexError" by (rule handler_index_in_bounds)
next
  show "add_region_filter [] ff = ff" by (simp add: add_region_filter_def)
next
  show "regions_to_query [] = Inl IndexError" by (simp add: regions_to_query_def)
next
  assume "arg_regions args = Some []"
  then have "req_regions args = []" by (simp add: req_regions_def arguments_get_def)
  then show "handler c w args = (w, Inl IndexError)" by (rule handler_empty_regions)
next
  assume "arg_regions args = Some []"
  then have "req_regions args = []" by (simp add: req_regions_def arguments_get_def)
  then have "handler c w args = (w, Inl IndexError)" by (rule handler_empty_regions)
  then show "\<forall>msg. snd (handler c w args) \<noteq> Inl (PricingError msg)" by simp
qed

theorem empty_regions_index_error_witness:
  "handler example_collab example_world (example_request\<lparr>arg_regions := Some []\<rparr>) =
     (example_world, Inl IndexError) \<and>
   snd (handler example_collab example_world (example_request\<lparr>arg_regions := None\<rparr>))
     \<noteq> Inl IndexError"
proof -
  have e: "arg_regions (example_request\<lparr>arg_regions := Some []\<rparr>) = Some []"
    and n: "arg_regions (example_request\<lparr>arg_regions := None\<rparr>) = None"
    by simp_all
  from e empty_regions_index_error
    [of "example_request\<lparr>arg_regions := Some []\<rparr>" example_collab example_world "[]"]
  have 1: "handler example_collab example_world (example_request\<lparr>arg_regions := Some []\<rparr>) =
     (example_world, Inl IndexError)" by blast
  from n empty_regions_index_error
    [of "example_request\<lparr>arg_regions := None\<rparr>" example_collab example_world "[]"]
  have 2: "snd (handler example_collab example_world (example_request\<lparr>arg_regions := None\<rparr>))
     \<noteq> Inl IndexError" by blast
  from 1 2 show ?thesis ..
qed

section \<open>Successful invocations\<close>

lemma two_region_names:
  assumes "map (dict_get REGION_MAPPING) [''us-east-1'', ''eu-west-1''] = map Some names"
  shows "names = [''US East (N. Virginia)'', ''Europe (Ireland)'']"
proof -
  have "map (dict_get REGION_MAPPING) [''us-east-1'', ''eu-west-1''] =
      map Some [''US East (N. Virginia)'', ''Europe (Ireland)'']"
    by code_simp
  with assms show ?thesis using names_unique by metis
qed

lemma req_query_no_filters:
  assumes "arg_filters args = None" and "length names \<noteq> 1"
  shows "q_Filters (req_query args names n) =
           [\<lparr>flt_Type = ''TERM_MATCH'', flt_Field = ''location'', flt_Value = JStr n\<rparr>]"
proof -
  have "add_region_filter names ([] :: json dict) = []"
    using assms(2) by (cases names; cases "tl names") (simp_all add: add_region_filter_def)
  then show ?thesis using assms(1)
    by (simp add: req_query_def region_query_def req_final_filters_def arguments_get_def
        normalize_filters_for_service_def build_api_filters_def)
qed

text \<open>
  C1. A successful invocation for more than one region has issued exactly one query per
  supplied region, in the order of the regions, each with its location filter set to the
  display name of its region; the record list written to the file is the concatenation,
  in that order, of the records of each region. For the regions us-east-1 and eu-west-1
  and no caller filters these are two queries, whose only filters are the locations
  US East (N. Virginia) and Europe (Ireland).
\<close>

theorem multi_region_fan_out:
  assumes "handler c w args = (w', Inr resp)" and "1 < length (req_regions args)"
  shows "\<exists>names call.
           map (dict_get REGION_MAPPING) (req_regions args) = map Some names \<and>
           length names = length (req_regions args) \<and>
           queries w' = queries w @ map (req_query args names) names \<and>
           map query_location (map (req_query args names) names) =
             map (\<lambda>n. Some (JStr n)) names \<and>
           files w' = files w @ [call] \<and>
           env_pricing_records (pf_data call) =
             concat (map (\<lambda>n. tag_documents c n (req_docs c args names n)) names) \<and>
           (req_regions args = [''us-east-1'', ''eu-west-1''] \<and> arg_filters args = None \<longrightarrow>
              names = [''US East (N. Virginia)'', ''Europe (Ireland)''] \<and>
              map q_Filters (map (req_query args names) names) =
                [[\<lparr>flt_Type = ''TERM_MATCH'', flt_Field = ''location'',
                   flt_Value = JStr ''US East (N. Virginia)''\<rparr>],
                 [\<lparr>flt_Type = ''TERM_MATCH'', flt_Field = ''location'',
                   flt_Value = JStr ''Europe (Ireland)''\<rparr>]])"
proof -
  from handler_success [OF assms(1)] obtain names call where
    names: "map (dict_get REGION_MAPPING) (req_regions args) = map Some names"
    and qs: "queries w' = queries w @ map (req_query args names) names"
    and fs: "files w' = files w @ [call]"
    and data: "pf_data call =
             \<lparr>env_service_code = arg_service_code args,
              env_regions_queried = req_regions args,
              env_filters_applied = req_final_filters args names,
              env_record_count = length (req_records c args names),
              env_pricing_records = req_records c args names\<rparr>"
    by blast
  have len: "length names = length (req_regions args)"
    using names by (rule names_length)
  have loc: "map query_location (map (req_query args names) names) =
      map (\<lambda>n. Some (JStr n)) names"
    by (simp add: query_location_req_query)
  have recs: "env_pricing_records (pf_data call) =
      concat (map (\<lambda>n. tag_documents c n (req_docs c args names n)) names)"
    using data by (simp add: req_records_def)
  have two: "req_regions args = [''us-east-1'', ''eu-west-1''] \<and> arg_filters args = None \<longrightarrow>
      names = [''US East (N. Virginia)'', ''Europe (Ireland)''] \<and>
      map q_Filters (map (req_query args names) names) =
        [[\<lparr>flt_Type = ''TERM_MATCH'', flt_Field = ''location'',
           flt_Value = JStr ''US East (N. Virginia)''\<rparr>],
         [\<lparr>flt_Type = ''TERM_MATCH'', flt_Field = ''location'',
           flt_Value = JStr ''Europe (Ireland)''\<rparr>]]"
  proof
    assume a: "req_regions args = [''us-east-1'', ''eu-west-1''] \<and> arg_filters args = None"
    with names have n: "names = [''US East (N. Virginia)'', ''Europe (Ireland)'']"
      using two_region_names by simp
    then have "length names \<noteq> 1" by simp
    with a have "\<And>m. q_Filters (req_query args names m) =
        [\<lparr>flt_Type = ''TERM_MATCH'', flt_Field = ''location'', flt_Value = JStr m\<rparr>]"
      using req_query_no_filters by blast
    then have "map q_Filters (map (req_query args names) names) =
        map (\<lambda>m. [\<lparr>flt_Type = ''TERM_MATCH'', flt_Field = ''location'',
           flt_Value = JStr m\<rparr>]) names" by simp
    with n show "names = [''US East (N. Virginia)'', ''Europe (Ireland)''] \<and>
      map q_Filters (map (req_query args names) names) =
        [[\<lparr>flt_Type = ''TERM_MATCH'', flt_Field = ''location'',
           flt_Value = JStr ''US East (N. Virginia)''\<rparr>],
         [\<lparr>flt_Type = ''TERM_MATCH'', flt_Field = ''location'',
           flt_Value = JStr ''Europe (Ireland)''\<rparr>]]" by simp
  qed
  show ?thesis
    by (rule exI [of _ names], rule exI [of _ call]) (intro conjI names len qs loc fs recs two)
qed

theorem multi_region_fan_out_witness:
  "\<exists>w' resp. handler example_collab example_world example_request = (w', Inr resp) \<and>
     map q_Filters (queries w') =
       [[\<lparr>flt_Type = ''TERM_MATCH'', flt_Field = ''location'',
          flt_Value = JStr ''US East (N. Virginia)''\<rparr>],
        [\<lparr>flt_Type = ''TERM_MATCH'', flt_Field = ''location'',
          flt_Value = JStr ''Europe (Ireland)''\<rparr>]]"
proof -
  have "\<not> isl (snd (handler example_collab example_world example_request))"
    by code_simp
  then obtain w' resp where
    h: "handler example_collab example_world example_request = (w', Inr resp)"
    using success_cases by blast
  have regs: "req_regions example_request = [''us-east-1'', ''eu-west-1'']"
    by (simp add: req_regions_def arguments_get_def example_request_def)
  then have len: "1 < length (req_regions example_request)" by simp
  have nofilters: "arg_filters example_request = None" by (simp add: example_request_def)
  from multi_region_fan_out [OF h len] obtain names call where
    q: "queries w' = queries example_world @ map (req_query example_request names) names"
    and two: "req_regions example_request = [''us-east-1'', ''eu-west-1''] \<and>
         arg_filters example_request = None \<longrightarrow>
         names = [''US East (N. Virginia)'', ''Europe (Ireland)''] \<and>
         map q_Filters (map (req_query example_request names) names) =
           [[\<lparr>flt_Type = ''TERM_MATCH'', flt_Field = ''location'',
              flt_Value = JStr ''US East (N. Virginia)''\<rparr>],
            [\<lparr>flt_Type = ''TERM_MATCH'', flt_Field = ''location'',
              flt_Value = JStr ''Europe (Ireland)''\<rparr>]]"
    by (elim exE conjE)
  from two regs nofilters have
    f: "map q_Filters (map (req_query example_request names) names) =
           [[\<lparr>flt_Type = ''TERM_MATCH'', flt_Field = ''location'',
              flt_Value = JStr ''US East (N. Virginia)''\<rparr>],
            [\<lparr>flt_Type = ''TERM_MATCH'', flt_Field = ''location'',
              flt_Value = JStr ''Europe (Ireland)''\<rparr>]]"
    by blast
  from q have "map q_Filters (queries w') =
      map q_Filters (map (req_query example_request names) names)"
    by (simp add: example_world_def)
  from this f have "map q_Filters (queries w') =
       [[\<lparr>flt_Type = ''TERM_MATCH'', flt_Field = ''location'',
          flt_Value = JStr ''US East (N. Virginia)''\<rparr>],
        [\<lparr>flt_Type = ''TERM_MATCH'', flt_Field = ''location'',
          flt_Value = JStr ''Europe (Ireland)''\<rparr>]]"
    by (rule trans)
  with h have "handler example_collab example_world example_request = (w', Inr resp) \<and>
     map q_Filters (queries w') =
       [[\<lparr>flt_Type = ''TERM_MATCH'', flt_Field = ''location'',
          flt_Value = JStr ''US East (N. Virginia)''\<rparr>],
        [\<lparr>flt_Type = ''TERM_MATCH'', flt_Field = ''location'',
          flt_Value = JStr ''Europe (Ireland)''\<rparr>]]"
    by (rule conjI)
  then show ?thesis by (intro exI)
qed

text \<open>
  C5. After a successful invocation whose aggregate list has n records, the response
  carries the first min n 10 of them, the file carries all of them, and the record count
  of the file, of its metadata and of the response is n.
\<close>

theorem summary_is_first_ten:
  assumes "handler c w args = (w', Inr resp)"
  shows "\<exists>names call.
           map (dict_get REGION_MAPPING) (req_regions args) = map Some names \<and>
           files w' = files w @ [call] \<and>
           env_pricing_records (pf_data call) = req_records c args names \<and>
           resp_pricing_records resp =
             take (min (length (req_records c args names)) 10) (req_records c args names) \<and>
           env_record_count (pf_data call) = length (req_records c args names) \<and>
           md_record_count (pf_metadata call) = length (req_records c args names) \<and>
           resp_record_count resp = length (req_records c args names)"
proof -
  from handler_success [OF assms] obtain names call where
    names: "map (dict_get REGION_MAPPING) (req_regions args) = map Some names"
    and fs: "files w' = files w @ [call]"
    and data: "pf_data call =
             \<lparr>env_service_code = arg_service_code args,
              env_regions_queried = req_regions args,
              env_filters_applied = req_final_filters args names,
              env_record_count = length (req_records c args names),
              env_pricing_records = req_records c args names\<rparr>"
    and meta: "pf_metadata call =
             \<lparr>md_service_code = arg_service_code args, md_regions = req_regions args,
              md_record_count = length (req_records c args names)\<rparr>"
    and resp: "resp =
             \<lparr>resp_pricing_records = take 10 (req_records c args names),
              resp_result_file_path =
                choose_result_path c (arg_service_code args) (arg_result_file_path args),
              resp_service_code = arg_service_code args,
              resp_regions_queried = req_regions args,
              resp_record_count = length (req_records c args names),
              resp_filters_applied = req_final_filters args names\<rparr>"
    by (elim exE conjE)
  have 1: "env_pricing_records (pf_data call) = req_records c args names"
    and 2: "env_record_count (pf_data call) = length (req_records c args names)"
    using data by simp_all
  have 3: "md_record_count (pf_metadata call) = length (req_records c args names)"
    using meta by simp
  have 4: "resp_record_count resp = length (req_records c args names)"
    using resp by simp
  have 5: "resp_pricing_records resp =
      take (min (length (req_records c args names)) 10) (req_records c args names)"
    using resp by (simp add: min_def)
  show ?thesis
    by (rule exI [of _ names], rule exI [of _ call]) (intro conjI names fs 1 5 2 3 4)
qed

theorem summary_is_first_ten_witness:
  "\<exists>w' resp call.
     handler example_collab example_world
       (example_request\<lparr>arg_regions :=
          Some [''us-east-1'', ''eu-west-1'', ''us-west-2'', ''eu-west-2'']\<rparr>) = (w', Inr resp) \<and>
     files w' = [call] \<and>
     length (env_pricing_records (pf_data call)) = 12 \<and>
     resp_record_count resp = 12 \<and>
     resp_pricing_records resp = take 10 (env_pricing_records (pf_data call))"
proof -
  let ?args = "example_request\<lparr>arg_regions :=
          Some [''us-east-1'', ''eu-west-1'', ''us-west-2'', ''eu-west-2'']\<rparr>"
  have "\<not> isl (snd (handler example_collab example_world ?args))"
    by code_simp
  then obtain w' resp where h: "handler example_collab example_world ?args = (w', Inr resp)"
    using success_cases by blast
  have count: "resp_record_count (projr (snd (handler example_collab example_world ?args))) = 12"
    by code_simp
  from summary_is_first_ten [OF h] obtain names call where
    fs: "files w' = files example_world @ [call]"
    and recs: "env_pricing_records (pf_data call) = req_records example_collab ?args names"
    and summary: "resp_pricing_records resp =
      take (min (length (req_records example_collab ?args names)) 10)
        (req_records example_collab ?args names)"
    and rc: "resp_record_count resp = length (req_records example_collab ?args names)"
    by (elim exE conjE)
  from count h have n: "resp_record_count resp = 12" by simp
  with rc have len: "length (req_records example_collab ?args names) = 12" by simp
  have "handler example_collab example_world ?args = (w', Inr resp) \<and>
     files w' = [call] \<and>
     length (env_pricing_records (pf_data call)) = 12 \<and>
     resp_record_count resp = 12 \<and>
     resp_pricing_records resp = take 10 (env_pricing_records (pf_data call))"
    using h fs recs summary n len by (simp add: example_world_def)
  then show ?thesis by (intro exI)
qed

lemma os_path_join_suffix:
  assumes "b \<noteq> []" and "hd b \<noteq> CHR ''/''"
  shows "\<exists>prefix. os_path_join a b = prefix @ b"
proof (cases "a = []")
  case True
  then have "os_path_join a b = [] @ b" by (simp add: os_path_join_def)
  then show ?thesis by (rule exI)
next
  case False
  show ?thesis
  proof (cases "last a = CHR ''/''")
    case True
    with False assms have "os_path_join a b = a @ b" by (simp add: os_path_join_def)
    then show ?thesis by (rule exI)
  next
    case nslash: False
    with False assms have "os_path_join a b = (a @ ''/'') @ b" by (simp add: os_path_join_def)
    then show ?thesis by (rule exI)
  qed
qed

text \<open>
  C8. When a successful invocation was given no output path (none, or the empty string),
  the path is the join of the working directory with the file name made of the service
  code and the token drawn from uuid4, so it ends in that file name; the one put-file
  call of the invocation and the response carry this same path.
\<close>

theorem generated_path_is_shared:
  assumes "handler c w args = (w', Inr resp)"
    and "arg_result_file_path args = None \<or> arg_result_file_path args = Some []"
  shows "\<exists>call prefix.
           files w' = files w @ [call] \<and>
           pf_file_path call =
             os_path_join (working_directory c)
               (''aws_pricing_'' @ arg_service_code args @ ''_'' @ uuid4 c @ ''.json'') \<and>
           pf_file_path call =
             prefix @ ''aws_pricing_'' @ arg_service_code args @ ''_'' @ uuid4 c @ ''.json'' \<and>
           resp_result_file_path resp = pf_file_path call"
proof -
  let ?name = "''aws_pricing_'' @ arg_service_code args @ ''_'' @ uuid4 c @ ''.json''"
  from handler_success [OF assms(1)] obtain names call where
    fs: "files w' = files w @ [call]"
    and path: "pf_file_path call =
             choose_result_path c (arg_service_code args) (arg_result_file_path args)"
    and resp: "resp =
             \<lparr>resp_pricing_records = take 10 (req_records c args names),
              resp_result_file_path =
                choose_result_path c (arg_service_code args) (arg_result_file_path args),
              resp_service_code = arg_service_code args,
              resp_regions_queried = req_regions args,
              resp_record_count = length (req_records c args names),
              resp_filters_applied = req_final_filters args names\<rparr>"
    by (elim exE conjE)
  have gen: "choose_result_path c (arg_service_code args) (arg_result_file_path args) =
      os_path_join (working_directory c) ?name"
    using assms(2) by (auto simp: choose_result_path_def Let_def)
  have 1: "pf_file_path call = os_path_join (working_directory c) ?name"
    using path gen by simp
  have 3: "resp_result_file_path resp = pf_file_path call"
    using resp path by simp
  obtain prefix where "os_path_join (working_directory c) ?name = prefix @ ?name"
    using os_path_join_suffix [of ?name "working_directory c"] by auto
  with 1 have 2: "pf_file_path call = prefix @ ?name" by simp
  show ?thesis
    by (rule exI [of _ call], rule exI [of _ prefix]) (intro conjI fs 1 2 3)
qed

theorem generated_path_is_shared_witness:
  "\<exists>w' resp call.
     handler example_collab example_world example_request = (w', Inr resp) \<and>
     files w' = [call] \<and>
     pf_file_path call =
       ''/work/aws_pricing_AmazonEC2_3f2504e0-4f89-41d3-9a0c-0305e82c3301.json'' \<and>
     resp_result_file_path resp = pf_file_path call"
proof -
  have "\<not> isl (snd (handler example_collab example_world example_request))"
    by code_simp
  then obtain w' resp where
    h: "handler example_collab example_world example_request = (w', Inr resp)"
    using success_cases by blast
  have nopath: "arg_result_file_path example_request = None \<or>
      arg_result_file_path example_request = Some []"
    by (simp add: example_request_def)
  have p: "os_path_join (working_directory example_collab)
      (''aws_pricing_'' @ arg_service_code example_request @ ''_'' @ uuid4 example_collab
         @ ''.json'') =
      ''/work/aws_pricing_AmazonEC2_3f2504e0-4f89-41d3-9a0c-0305e82c3301.json''"
    by code_simp
  from generated_path_is_shared [OF h nopath] obtain call where
    fs: "files w' = files example_world @ [call]"
    and path: "pf_file_path call = os_path_join (working_directory example_collab)
      (''aws_pricing_'' @ arg_service_code example_request @ ''_'' @ uuid4 example_collab
         @ ''.json'')"
    and same: "resp_result_file_path resp = pf_file_path call"
    by (elim exE conjE)
  have "handler example_collab example_world example_request = (w', Inr resp) \<and>
     files w' = [call] \<and>
     pf_file_path call =
       ''/work/aws_pricing_AmazonEC2_3f2504e0-4f89-41d3-9a0c-0305e82c3301.json'' \<and>
     resp_result_file_path resp = pf_file_path call"
    using h fs path same p by (simp add: example_world_def)
  then show ?thesis by (intro exI)
qed

lemma add_region_filter_single:
  "add_region_filter [n] d = dict_set ''location'' (JStr n) d"
  by (simp add: add_region_filter_def)

lemma add_region_filter_multi:
  "length names \<noteq> 1 \<Longrightarrow> add_region_filter names d = d"
  by (cases names; cases "tl names") (simp_all add: add_region_filter_def)

lemma req_query_filters:
  assumes "n \<in> set names"
  shows "q_Filters (req_query args names n) =
           build_api_filters (dict_set ''location'' (JStr n)
             (normalize_filters_for_service (Some (arguments_get (arg_filters args) []))))"
proof (cases "length names = 1")
  case True
  with assms have "names = [n]" by (cases names) auto
  then show ?thesis
    by (simp add: req_query_def region_query_def req_final_filters_def
        add_region_filter_single dict_set_twice)
next
  case False
  then show ?thesis
    by (simp add: req_query_def region_query_def req_final_filters_def
        add_region_filter_multi)
qed


lemma build_api_filters_types:
  "f \<in> set (build_api_filters d) \<Longrightarrow> flt_Type f = ''TERM_MATCH''"
  by (auto simp: build_api_filters_def)

text \<open>
  C6. After a successful invocation every region has been queried with a filter list that
  has one term-match entry per entry of the normalised caller filters with the location
  set to the display name of that region, in the order of that dict and with nothing
  else, whatever location the caller supplied. For one region the location is already
  part of the final filters, which are the ones reported as applied, so that the
  assignment inside the loop changes nothing; for several regions the final filters are
  the normalised caller filters alone.
\<close>

theorem region_filters_pin_location:
  assumes "handler c w args = (w', Inr resp)"
  shows "\<exists>names.
           map (dict_get REGION_MAPPING) (req_regions args) = map Some names \<and>
           queries w' = queries w @ map (req_query args names) names \<and>
           (\<forall>n \<in> set names.
              q_Filters (req_query args names n) =
                map (\<lambda>(key, val).
                       \<lparr>flt_Type = ''TERM_MATCH'', flt_Field = key, flt_Value = val\<rparr>)
                  (dict_set ''location'' (JStr n)
                    (normalize_filters_for_service
                      (Some (arguments_get (arg_filters args) [])))) \<and>
              (\<forall>f \<in> set (q_Filters (req_query args names n)).
                 flt_Type f = ''TERM_MATCH'') \<and>
              map (\<lambda>f. (flt_Field f, flt_Value f)) (q_Filters (req_query args names n)) =
                dict_set ''location'' (JStr n)
                  (normalize_filters_for_service
                    (Some (arguments_get (arg_filters args) []))) \<and>
              query_location (req_query args names n) = Some (JStr n) \<and>
              (\<forall>k. map_of (map (\<lambda>f. (flt_Field f, flt_Value f))
                           (q_Filters (req_query args names n))) k =
                (if k = ''location'' then Some (JStr n)
                 else dict_get (normalize_filters_for_service
                   (Some (arguments_get (arg_filters args) []))) k))) \<and>
           (\<forall>n. names = [n] \<longrightarrow>
              resp_filters_applied resp =
                dict_set ''location'' (JStr n)
                  (normalize_filters_for_service (Some (arguments_get (arg_filters args) []))) \<and>
              dict_set ''location'' (JStr n) (resp_filters_applied resp) =
                resp_filters_applied resp) \<and>
           (1 < length names \<longrightarrow>
              resp_filters_applied resp =
                normalize_filters_for_service (Some (arguments_get (arg_filters args) [])))"
proof -
  let ?norm = "normalize_filters_for_service (Some (arguments_get (arg_filters args) []))"
  from handler_success [OF assms] obtain names call where
    names: "map (dict_get REGION_MAPPING) (req_regions args) = map Some names"
    and qs: "queries w' = queries w @ map (req_query args names) names"
    and resp: "resp =
             \<lparr>resp_pricing_records = take 10 (req_records c args names),
              resp_result_file_path =
                choose_result_path c (arg_service_code args) (arg_result_file_path args),
              resp_service_code = arg_service_code args,
              resp_regions_queried = req_regions args,
              resp_record_count = length (req_records c args names),
              resp_filters_applied = req_final_filters args names\<rparr>"
    by (elim exE conjE)
  have applied: "resp_filters_applied resp = add_region_filter names ?norm"
    using resp by (simp add: req_final_filters_def)
  have each: "\<forall>n \<in> set names.
      q_Filters (req_query args names n) =
        map (\<lambda>(key, val). \<lparr>flt_Type = ''TERM_MATCH'', flt_Field = key, flt_Value = val\<rparr>)
          (dict_set ''location'' (JStr n) ?norm) \<and>
      (\<forall>f \<in> set (q_Filters (req_query args names n)). flt_Type f = ''TERM_MATCH'') \<and>
      map (\<lambda>f. (flt_Field f, flt_Value f)) (q_Filters (req_query args names n)) =
        dict_set ''location'' (JStr n) ?norm \<and>
      query_location (req_query args names n) = Some (JStr n) \<and>
      (\<forall>k. map_of (map (\<lambda>f. (flt_Field f, flt_Value f))
                   (q_Filters (req_query args names n))) k =
        (if k = ''location'' then Some (JStr n) else dict_get ?norm k))"
  proof
    fix n
    assume n: "n \<in> set names"
    have q: "q_Filters (req_query args names n) =
        build_api_filters (dict_set ''location'' (JStr n) ?norm)"
      using n by (rule req_query_filters)
    have 1: "q_Filters (req_query args names n) =
        map (\<lambda>(key, val). \<lparr>flt_Type = ''TERM_MATCH'', flt_Field = key, flt_Value = val\<rparr>)
          (dict_set ''location'' (JStr n) ?norm)"
      using q by (simp add: build_api_filters_def)
    have 2: "\<forall>f \<in> set (q_Filters (req_query args names n)). flt_Type f = ''TERM_MATCH''"
      using q by (simp add: build_api_filters_types)
    have 3: "map (\<lambda>f. (flt_Field f, flt_Value f)) (q_Filters (req_query args names n)) =
        dict_set ''location'' (JStr n) ?norm"
      using q by (simp add: filters_of_build_api_filters)
    have 4: "query_location (req_query args names n) = Some (JStr n)"
      by (rule query_location_req_query)
    have 5: "\<forall>k. map_of (map (\<lambda>f. (flt_Field f, flt_Value f))
                   (q_Filters (req_query args names n))) k =
        (if k = ''location'' then Some (JStr n) else dict_get ?norm k)"
      unfolding 3 by (simp add: map_of_dict_set dict_get_def)
    from 1 2 3 4 5 show "q_Filters (req_query args names n) =
        map (\<lambda>(key, val). \<lparr>flt_Type = ''TERM_MATCH'', flt_Field = key, flt_Value = val\<rparr>)
          (dict_set ''location'' (JStr n) ?norm) \<and>
      (\<forall>f \<in> set (q_Filters (req_query args names n)). flt_Type f = ''TERM_MATCH'') \<and>
      map (\<lambda>f. (flt_Field f, flt_Value f)) (q_Filters (req_query args names n)) =
        dict_set ''location'' (JStr n) ?norm \<and>
      query_location (req_query args names n) = Some (JStr n) \<and>
      (\<forall>k. map_of (map (\<lambda>f. (flt_Field f, flt_Value f))
                   (q_Filters (req_query args names n))) k =
        (if k = ''location'' then Some (JStr n) else dict_get ?norm k))"
      by (intro conjI)
  qed
  have single: "\<forall>n. names = [n] \<longrightarrow>
      resp_filters_applied resp = dict_set ''location'' (JStr n) ?norm \<and>
      dict_set ''location'' (JStr n) (resp_filters_applied resp) = resp_filters_applied resp"
    using applied by (simp add: add_region_filter_single dict_set_twice)
  have multi: "1 < length names \<longrightarrow> resp_filters_applied resp = ?norm"
    using applied by (simp add: add_region_filter_multi)
  show ?thesis
    by (rule exI [of _ names]) (intro conjI names qs each single multi)
qed

theorem region_filters_pin_location_witness:
  "\<exists>w' resp.
     handler example_collab example_world
       (example_request\<lparr>arg_regions := Some [''eu-west-1''],
          arg_filters := Some [(''instance_type'', JStr ''m5.large''),
                               (''location'', JStr ''Mars'')]\<rparr>) = (w', Inr resp) \<and>
     map q_Filters (queries w') =
       [[\<lparr>flt_Type = ''TERM_MATCH'', flt_Field = ''instanceType'',
          flt_Value = JStr ''m5.large''\<rparr>,
         \<lparr>flt_Type = ''TERM_MATCH'', flt_Field = ''location'',
          flt_Value = JStr ''Europe (Ireland)''\<rparr>]] \<and>
     resp_filters_applied resp =
       [(''instanceType'', JStr ''m5.large''), (''location'', JStr ''Europe (Ireland)'')]"
proof -
  let ?args = "example_request\<lparr>arg_regions := Some [''eu-west-1''],
          arg_filters := Some [(''instance_type'', JStr ''m5.large''),
                               (''location'', JStr ''Mars'')]\<rparr>"
  let ?norm = "normalize_filters_for_service (Some (arguments_get (arg_filters ?args) []))"
  have "\<not> isl (snd (handler example_collab example_world ?args))"
    by code_simp
  then obtain w' resp where h: "handler example_collab example_world ?args = (w', Inr resp)"
    using success_cases by blast
  have regs: "map (dict_get REGION_MAPPING) (req_regions ?args) = map Some [''Europe (Ireland)'']"
    by code_simp
  have norm: "dict_set ''location'' (JStr ''Europe (Ireland)'') ?norm =
      [(''instanceType'', JStr ''m5.large''), (''location'', JStr ''Europe (Ireland)'')]"
    by code_simp
  from region_filters_pin_location [OF h] obtain names where
    names: "map (dict_get REGION_MAPPING) (req_regions ?args) = map Some names"
    and qs: "queries w' = queries example_world @ map (req_query ?args names) names"
    and each: "\<forall>n \<in> set names.
      q_Filters (req_query ?args names n) =
        map (\<lambda>(key, val). \<lparr>flt_Type = ''TERM_MATCH'', flt_Field = key, flt_Value = val\<rparr>)
          (dict_set ''location'' (JStr n) ?norm) \<and>
      (\<forall>f \<in> set (q_Filters (req_query ?args names n)). flt_Type f = ''TERM_MATCH'') \<and>
      map (\<lambda>f. (flt_Field f, flt_Value f)) (q_Filters (req_query ?args names n)) =
        dict_set ''location'' (JStr n) ?norm \<and>
      query_location (req_query ?args names n) = Some (JStr n) \<and>
      (\<forall>k. map_of (map (\<lambda>f. (flt_Field f, flt_Value f))
                   (q_Filters (req_query ?args names n))) k =
        (if k = ''location'' then Some (JStr n) else dict_get ?norm k))"
    and single: "\<forall>n. names = [n] \<longrightarrow>
      resp_filters_applied resp = dict_set ''location'' (JStr n) ?norm \<and>
      dict_set ''location'' (JStr n) (resp_filters_applied resp) = resp_filters_applied resp"
    by (elim exE conjE)
  from names regs have n: "names = [''Europe (Ireland)'']" by (rule names_unique)
  have mem: "''Europe (Ireland)'' \<in> set names" using n by simp
  note here = bspec [OF each mem]
  from here have "q_Filters (req_query ?args names ''Europe (Ireland)'') =
      map (\<lambda>(key, val). \<lparr>flt_Type = ''TERM_MATCH'', flt_Field = key, flt_Value = val\<rparr>)
        (dict_set ''location'' (JStr ''Europe (Ireland)'') ?norm)"
    by (rule conjunct1)
  then have sent: "q_Filters (req_query ?args names ''Europe (Ireland)'') =
       [\<lparr>flt_Type = ''TERM_MATCH'', flt_Field = ''instanceType'',
          flt_Value = JStr ''m5.large''\<rparr>,
        \<lparr>flt_Type = ''TERM_MATCH'', flt_Field = ''location'',
          flt_Value = JStr ''Europe (Ireland)''\<rparr>]"
    unfolding norm by simp
  have 1: "map q_Filters (queries w') =
       [[\<lparr>flt_Type = ''TERM_MATCH'', flt_Field = ''instanceType'',
          flt_Value = JStr ''m5.large''\<rparr>,
         \<lparr>flt_Type = ''TERM_MATCH'', flt_Field = ''location'',
          flt_Value = JStr ''Europe (Ireland)''\<rparr>]]"
    using qs n sent by (simp add: example_world_def)
  from spec [OF single, of "''Europe (Ireland)''"] n
  have "resp_filters_applied resp =
      dict_set ''location'' (JStr ''Europe (Ireland)'') ?norm"
    by (elim impE conjE) assumption+
  then have 2: "resp_filters_applied resp =
      [(''instanceType'', JStr ''m5.large''), (''location'', JStr ''Europe (Ireland)'')]"
    unfolding norm .
  show ?thesis
    by (rule exI [of _ w'], rule exI [of _ resp]) (intro conjI h 1 2)
qed

lemma req_query_max_results:
  "q_MaxResults (req_query args names n) = arguments_get (arg_max_records args) 50"
  by (simp add: req_query_def region_query_def Let_def)

text \<open>
  C7. After a successful invocation every query has carried the caller's max_records, or
  50 when the caller gave none, as MaxResults, and the aggregate list holds the records
  of every page the catalog returned for every region. MaxResults therefore bounds a
  page, not the total: there is an invocation with max_records 2 whose catalog never
  returns a page of more than 2 entries and whose record count is above 2.
\<close>

theorem max_records_is_page_cap:
  assumes "handler c w args = (w', Inr resp)"
  shows "(\<exists>names call.
            map (dict_get REGION_MAPPING) (req_regions args) = map Some names \<and>
            queries w' = queries w @ map (req_query args names) names \<and>
            (\<forall>n \<in> set names.
               q_MaxResults (req_query args names n) =
                 arguments_get (arg_max_records args) 50) \<and>
            (arg_max_records args = None \<longrightarrow>
               (\<forall>n \<in> set names. q_MaxResults (req_query args names n) = 50)) \<and>
            files w' = files w @ [call] \<and>
            env_pricing_records (pf_data call) =
              concat (map (\<lambda>n. tag_documents c n
                (concat (fst (get_products c (req_query args names n))))) names)) \<and>
         (\<exists>c0 w0 args0 w1 resp1.
            handler c0 w0 args0 = (w1, Inr resp1) \<and>
            arg_max_records args0 = Some 2 \<and>
            (\<forall>q. \<forall>page \<in> set (fst (get_products c0 q)). int (length page) \<le> 2) \<and>
            2 < int (resp_record_count resp1))"
proof
  from handler_success [OF assms] obtain names call where
    names: "map (dict_get REGION_MAPPING) (req_regions args) = map Some names"
    and qs: "queries w' = queries w @ map (req_query args names) names"
    and fs: "files w' = files w @ [call]"
    and data: "pf_data call =
             \<lparr>env_service_code = arg_service_code args,
              env_regions_queried = req_regions args,
              env_filters_applied = req_final_filters args names,
              env_record_count = length (req_records c args names),
              env_pricing_records = req_records c args names\<rparr>"
    by (elim exE conjE)
  have cap: "\<forall>n \<in> set names.
      q_MaxResults (req_query args names n) = arguments_get (arg_max_records args) 50"
    by (simp add: req_query_max_results)
  have dflt: "arg_max_records args = None \<longrightarrow>
      (\<forall>n \<in> set names. q_MaxResults (req_query args names n) = 50)"
    by (simp add: req_query_max_results arguments_get_def)
  have recs: "env_pricing_records (pf_data call) =
      concat (map (\<lambda>n. tag_documents c n
        (concat (fst (get_products c (req_query args names n))))) names)"
    using data by (simp add: req_records_def req_docs_def)
  show "\<exists>names call.
            map (dict_get REGION_MAPPING) (req_regions args) = map Some names \<and>
            queries w' = queries w @ map (req_query args names) names \<and>
            (\<forall>n \<in> set names.
               q_MaxResults (req_query args names n) =
                 arguments_get (arg_max_records args) 50) \<and>
            (arg_max_records args = None \<longrightarrow>
               (\<forall>n \<in> set names. q_MaxResults (req_query args names n) = 50)) \<and>
            files w' = files w @ [call] \<and>
            env_pricing_records (pf_data call) =
              concat (map (\<lambda>n. tag_documents c n
                (concat (fst (get_products c (req_query args names n))))) names)"
    by (rule exI [of _ names], rule exI [of _ call]) (intro conjI names qs cap dflt fs recs)
next
  let ?args = "example_request\<lparr>arg_regions := Some [''us-east-1''],
      arg_max_records := Some 2\<rparr>"
  let ?out = "handler example_collab example_world ?args"
  have "\<not> isl (snd ?out)" by code_simp
  then obtain w1 resp1 where h: "?out = (w1, Inr resp1)"
    using success_cases by blast
  have "resp_record_count (projr (snd ?out)) = 3" by code_simp
  with h have big: "2 < int (resp_record_count resp1)" by simp
  have mr: "arg_max_records ?args = Some 2" by simp
  have pages: "\<forall>q. \<forall>page \<in> set (fst (get_products example_collab q)). int (length page) \<le> 2"
    by (simp add: example_collab_def)
  from h mr pages big show "\<exists>c0 w0 args0 w1 resp1.
            handler c0 w0 args0 = (w1, Inr resp1) \<and>
            arg_max_records args0 = Some 2 \<and>
            (\<forall>q. \<forall>page \<in> set (fst (get_products c0 q)). int (length page) \<le> 2) \<and>
            2 < int (resp_record_count resp1)"
    by (intro exI conjI)
qed

theorem max_records_is_page_cap_witness:
  "\<exists>w' resp.
     handler example_collab example_world
       (example_request\<lparr>arg_regions := Some [''us-east-1''], arg_max_records := Some 2\<rparr>) =
       (w', Inr resp) \<and>
     map q_MaxResults (queries w') = [2] \<and>
     resp_record_count resp = 3"
proof -
  let ?args = "example_request\<lparr>arg_regions := Some [''us-east-1''],
      arg_max_records := Some 2\<rparr>"
  let ?out = "handler example_collab example_world ?args"
  have "\<not> isl (snd ?out)" by code_simp
  then obtain w' resp where h: "?out = (w', Inr resp)"
    using success_cases by blast
  have "resp_record_count (projr (snd ?out)) = 3" by code_simp
  with h have count: "resp_record_count resp = 3" by simp
  have regs: "map (dict_get REGION_MAPPING) (req_regions ?args) =
      map Some [''US East (N. Virginia)'']"
    by code_simp
  from max_records_is_page_cap [OF h] obtain names where
    names: "map (dict_get REGION_MAPPING) (req_regions ?args) = map Some names"
    and qs: "queries w' = queries example_world @ map (req_query ?args names) names"
    and cap: "\<forall>n \<in> set names.
      q_MaxResults (req_query ?args names n) = arguments_get (arg_max_records ?args) 50"
    by (elim exE conjE)
  from names regs have n: "names = [''US East (N. Virginia)'']" by (rule names_unique)
  have "map q_MaxResults (queries w') = [2]"
    using qs cap n by (simp add: example_world_def arguments_get_def)
  with h count have "?out = (w', Inr resp) \<and>
     map q_MaxResults (queries w') = [2] \<and> resp_record_count resp = 3"
    by (intro conjI)
  then show ?thesis by (intro exI)
qed

section \<open>Malformed entries\<close>




lemma malformed_not_document: "malformed c s \<Longrightarrow> \<not> is_document c s"
  by (simp add: malformed_def is_document_def)










end
